theory Spec2Isabelle
  imports Complex_Main
begin

section \<open>Configuration (config.py)\<close>

text \<open>
  The constants of \<^verbatim>\<open>config.py\<close> that the engine reads. Python floats are modelled as
  reals: the order and the sign of a value are the ones of the float, the rounding
  error of IEEE arithmetic is not modelled.
\<close>

definition STATE_CODES :: "string list" where
  "STATE_CODES = [''PB'', ''MH'', ''TN'', ''KA'', ''GJ'', ''UP'', ''BR'', ''WB'', ''RJ'', ''MP'']"

definition RESOURCE_NAMES :: "string list" where
  "RESOURCE_NAMES = [''water'', ''energy'', ''food'', ''tech'']"

section \<open>Data model\<close>

text \<open>
  A region document is a Python dict. The nested dicts (resources, rates, policies) are
  maps; a scalar field that the code reads with \<^verbatim>\<open>.get(key, default)\<close> is an option, so
  that each read keeps its own default. The two demographics entries the engine reads
  are fields of the record.
\<close>

type_synonym ledger = "string \<rightharpoonup> int"

record region =
  resources :: ledger
  resource_generation_rates :: ledger
  resource_consumption_rates :: ledger
  internal_policies :: "string \<rightharpoonup> real"
  population :: "int option"
  gdp_score :: "real option"
  welfare_score :: "real option"
  trust_score :: "real option"
  workforce_efficiency :: "real option"
  unrest_level :: "real option"

type_synonym regions = "string \<rightharpoonup> region"

text \<open>Exceptions are values: a missing dict key, or a failure raised by a collaborator.\<close>

datatype exn = KeyError string | External string

text \<open>\<^verbatim>\<open>d.get(k, default)\<close>\<close>

definition dget :: "('k \<rightharpoonup> 'v) \<Rightarrow> 'k \<Rightarrow> 'v \<Rightarrow> 'v" where
  "dget d k dflt = (case d k of None \<Rightarrow> dflt | Some v \<Rightarrow> v)"

text \<open>\<^verbatim>\<open>d.get(key, default)\<close> for an optional field of a record.\<close>

definition oget :: "'v option \<Rightarrow> 'v \<Rightarrow> 'v" where
  "oget field dflt = (case field of None \<Rightarrow> dflt | Some v \<Rightarrow> v)"

text \<open>\<^verbatim>\<open>regions_data.get(code, {}).get("resources", {}).get(res, 0)\<close>\<close>

definition stock :: "regions \<Rightarrow> string \<Rightarrow> string \<Rightarrow> int" where
  "stock rd code res = (case rd code of None \<Rightarrow> 0 | Some r \<Rightarrow> dget (resources r) res 0)"

section \<open>Step 1: produce and consume (world_env.py, \_step\_produce\_consume)\<close>

text \<open>
  The inner loop builds a fresh dict with the four resource names;
  \<^verbatim>\<open>new_resources[res] = max(0, current + gen - con)\<close>.
\<close>

definition new_resources :: "region \<Rightarrow> ledger" where
  "new_resources r =
     fold (\<lambda>res acc. acc(res \<mapsto>
             max 0 (dget (resources r) res 0
                    + dget (resource_generation_rates r) res 0
                    - dget (resource_consumption_rates r) res 0)))
          RESOURCE_NAMES Map.empty"

text \<open>
  The outer loop over the state codes. \<^verbatim>\<open>self.regions_data[code]["resources"] = ...\<close>
  raises KeyError for a code with no region document. The second component is
  \<^verbatim>\<open>tick_events["resource_updates"]\<close> as it stands when step 1 ends.
\<close>

fun produce_consume_loop ::
  "string list \<Rightarrow> regions \<times> (string \<rightharpoonup> ledger) \<Rightarrow> exn + regions \<times> (string \<rightharpoonup> ledger)" where
  "produce_consume_loop [] (rd, ups) = Inr (rd, ups)"
| "produce_consume_loop (code # codes) (rd, ups) =
     (case rd code of
        None \<Rightarrow> Inl (KeyError code)
      | Some r \<Rightarrow>
          produce_consume_loop codes
            (rd(code \<mapsto> r\<lparr>resources := new_resources r\<rparr>), ups(code \<mapsto> new_resources r)))"

definition step_produce_consume ::
  "regions \<Rightarrow> exn + regions \<times> (string \<rightharpoonup> ledger)" where
  "step_produce_consume rd = produce_consume_loop STATE_CODES (rd, Map.empty)"

text \<open>A world in which only step 1 runs, for \<open>n\<close> ticks.\<close>

fun produce_consume_ticks :: "nat \<Rightarrow> regions \<Rightarrow> exn + regions" where
  "produce_consume_ticks 0 rd = Inr rd"
| "produce_consume_ticks (Suc n) rd =
     (case step_produce_consume rd of
        Inl e \<Rightarrow> Inl e
      | Inr (rd', ups) \<Rightarrow> produce_consume_ticks n rd')"

text \<open>The water stock of region \<open>code\<close> after \<open>n\<close> such ticks (None when a tick raised).\<close>

definition water_after :: "nat \<Rightarrow> regions \<Rightarrow> string \<Rightarrow> int option" where
  "water_after n rd code =
     (case produce_consume_ticks n rd of Inl e \<Rightarrow> None | Inr rd' \<Rightarrow> Some (stock rd' code ''water''))"

text \<open>
  The end-to-end scenario of the specification: region A is seeded at code PB, region B
  at code MH, the other eight regions hold nothing and produce nothing.
\<close>

definition blank_region :: region where
  "blank_region =
     \<lparr>resources = Map.empty, resource_generation_rates = Map.empty,
      resource_consumption_rates = Map.empty, internal_policies = Map.empty,
      population = None, gdp_score = None, welfare_score = None, trust_score = None,
      workforce_efficiency = None, unrest_level = None\<rparr>"

definition scenario_A :: region where
  "scenario_A = blank_region
     \<lparr>resources := [''water'' \<mapsto> 1000],
      resource_generation_rates := [''water'' \<mapsto> - 50],
      resource_consumption_rates := [''water'' \<mapsto> 100]\<rparr>"

definition scenario_B :: region where
  "scenario_B = blank_region
     \<lparr>resources := [''water'' \<mapsto> 1000],
      resource_generation_rates := [''water'' \<mapsto> 50],
      resource_consumption_rates := [''water'' \<mapsto> 50]\<rparr>"

definition scenario_regions :: regions where
  "scenario_regions =
     (\<lambda>code. if code \<in> set STATE_CODES then Some blank_region else None)
       (''PB'' \<mapsto> scenario_A, ''MH'' \<mapsto> scenario_B)"

section \<open>Treaty manager (treaty\_manager.py)\<close>

definition MAX_ACTIVE_TREATIES_PER_STATE :: nat where
  "MAX_ACTIVE_TREATIES_PER_STATE = 5"

definition TREATY_BREACH_TRUST_PENALTY :: int where
  "TREATY_BREACH_TRUST_PENALTY = 15"

definition TREATY_HONOR_TRUST_BONUS :: int where
  "TREATY_HONOR_TRUST_BONUS = 2"

text \<open>An entry of \<^verbatim>\<open>treaty.breaches\<close>, the treaty's own append-only log.\<close>

record breach_log =
  bl_tick :: int
  bl_breacher :: string
  bl_resource :: string
  bl_promised :: int
  bl_available :: int

text \<open>
  Class \<^verbatim>\<open>Treaty\<close>. The two obligations are dicts that the code iterates in insertion
  order: association lists.
\<close>

record treaty =
  treaty_id :: string
  from_region :: string
  to_region :: string
  per_tick_offer :: "(string \<times> int) list"
  per_tick_request :: "(string \<times> int) list"
  duration_ticks :: int
  ticks_remaining :: int
  is_active :: bool
  treaty_breaches :: "breach_log list"
  created_tick :: int

text \<open>The entries of \<^verbatim>\<open>result["transfers"]\<close> and \<^verbatim>\<open>result["breaches"]\<close>.\<close>

record transfer =
  direction :: string
  tr_resource :: string
  tr_amount :: int
  tr_status :: string

record breach =
  breacher :: string
  br_resource :: string
  shortfall :: int

text \<open>The result dict of one treaty's enforcement.\<close>

record enforcement =
  res_treaty_id :: string
  res_from :: string
  res_to :: string
  transfers :: "transfer list"
  breaches :: "breach list"

text \<open>
  \<^verbatim>\<open>WorldEnvironment._update_region_resources_local\<close>, the callback that the world passes
  as \<^verbatim>\<open>update_func\<close>: it writes into the resources dict of a known region, in place, and
  ignores an unknown code.
\<close>

definition update_region_resources_local :: "string \<Rightarrow> string \<Rightarrow> int \<Rightarrow> regions \<Rightarrow> regions" where
  "update_region_resources_local code res val rd =
     (case rd code of
        None \<Rightarrow> rd
      | Some r \<Rightarrow> rd(code \<mapsto> r\<lparr>resources := (resources r)(res \<mapsto> val)\<rparr>))"

type_synonym update_func = "string \<Rightarrow> string \<Rightarrow> int \<Rightarrow> regions \<Rightarrow> regions"

text \<open>
  One leg of \<^verbatim>\<open>_enforce_single\<close>: the body of the loop over \<^verbatim>\<open>per_tick_offer.items()\<close>
  with \<open>giver\<close> the from-region and \<open>receiver\<close> the to-region, and the body of the loop
  over \<^verbatim>\<open>per_tick_request.items()\<close> with the two roles exchanged (the two bodies are the
  same text up to that exchange). \<^verbatim>\<open>from_resources\<close> and \<^verbatim>\<open>to_resources\<close> are references
  into \<^verbatim>\<open>regions_data\<close>, which the callback mutates in place, so every read sees the
  writes made before it: the model reads the current ledger. The state is the ledger,
  the treaty's breach log and the result under construction.
\<close>

definition deliver ::
  "update_func option \<Rightarrow> int \<Rightarrow> string \<Rightarrow> string \<Rightarrow> string \<times> int
   \<Rightarrow> regions \<times> breach_log list \<times> enforcement \<Rightarrow> regions \<times> breach_log list \<times> enforcement" where
  "deliver update current_tick giver receiver leg st =
     (case (leg, st) of ((resource, amount), (rd, blog, result)) \<Rightarrow>
        let available = stock rd giver resource in
        if available \<ge> amount then
          (let rd' = (case update of
                        None \<Rightarrow> rd
                      | Some f \<Rightarrow>
                          let rd1 = f giver resource (available - amount) rd;
                              receiver_current = stock rd1 receiver resource
                          in f receiver resource (receiver_current + amount) rd1)
           in (rd', blog,
               result\<lparr>transfers := transfers result @
                  [\<lparr>direction = giver @ '' -> '' @ receiver, tr_resource = resource,
                    tr_amount = amount, tr_status = ''DELIVERED''\<rparr>]\<rparr>))
        else
          (rd,
           blog @ [\<lparr>bl_tick = current_tick, bl_breacher = giver, bl_resource = resource,
                   bl_promised = amount, bl_available = available\<rparr>],
           result\<lparr>breaches := breaches result @
              [\<lparr>breacher = giver, br_resource = resource, shortfall = amount - available\<rparr>]\<rparr>))"

definition enforce_single ::
  "treaty \<Rightarrow> regions \<Rightarrow> update_func option \<Rightarrow> int \<Rightarrow> regions \<times> treaty \<times> enforcement" where
  "enforce_single t rd update current_tick =
     (let result = \<lparr>res_treaty_id = treaty_id t, res_from = from_region t,
                     res_to = to_region t, transfers = [], breaches = []\<rparr>;
          st1 = fold (deliver update current_tick (from_region t) (to_region t))
                     (per_tick_offer t) (rd, treaty_breaches t, result);
          st2 = fold (deliver update current_tick (to_region t) (from_region t))
                     (per_tick_request t) st1
      in case st2 of (rd', blog, result') \<Rightarrow> (rd', t\<lparr>treaty_breaches := blog\<rparr>, result'))"

text \<open>
  \<^verbatim>\<open>enforce_treaties\<close>: the loop over \<^verbatim>\<open>self.active_treaties\<close>. It returns the ledger, the
  treaties that stay in the active list, the ones that expired this tick, and the
  results. A treaty of the list that is not active is skipped and stays in the list.
\<close>

fun enforce_loop ::
  "update_func option \<Rightarrow> int \<Rightarrow> treaty list \<Rightarrow> regions
   \<Rightarrow> regions \<times> treaty list \<times> treaty list \<times> enforcement list" where
  "enforce_loop update current_tick [] rd = (rd, [], [], [])"
| "enforce_loop update current_tick (t # ts) rd =
     (if \<not> is_active t then
        (case enforce_loop update current_tick ts rd of
           (rd', active, expired, results) \<Rightarrow> (rd', t # active, expired, results))
      else
        (case enforce_single t rd update current_tick of (rd1, t1, result) \<Rightarrow>
           let t2 = t1\<lparr>ticks_remaining := ticks_remaining t1 - 1\<rparr> in
           (case enforce_loop update current_tick ts rd1 of
              (rd', active, expired, results) \<Rightarrow>
                if ticks_remaining t2 \<le> 0
                then (rd', active, t2\<lparr>is_active := False\<rparr> # expired, result # results)
                else (rd', t2 # active, expired, result # results))))"

record treaty_manager =
  active_treaties :: "treaty list"
  expired_treaties :: "treaty list"
  treaty_counter :: nat

definition enforce_treaties ::
  "treaty_manager \<Rightarrow> int \<Rightarrow> regions \<Rightarrow> update_func option
   \<Rightarrow> regions \<times> treaty_manager \<times> enforcement list" where
  "enforce_treaties tm current_tick rd update =
     (case enforce_loop update current_tick (active_treaties tm) rd of
        (rd', active, expired, results) \<Rightarrow>
          (rd', tm\<lparr>active_treaties := active,
                    expired_treaties := expired_treaties tm @ expired\<rparr>, results))"

text \<open>
  \<^verbatim>\<open>calculate_trust_adjustments\<close>. \<^verbatim>\<open>adjustments[k] += d\<close> raises KeyError for a key that
  the dict does not hold.
\<close>

type_synonym adjustments = "string \<rightharpoonup> int"

definition setdefault :: "adjustments \<Rightarrow> string \<Rightarrow> int \<Rightarrow> adjustments" where
  "setdefault adj k v = (case adj k of None \<Rightarrow> adj(k \<mapsto> v) | Some _ \<Rightarrow> adj)"

definition add_at :: "string \<Rightarrow> int \<Rightarrow> adjustments \<Rightarrow> exn + adjustments" where
  "add_at k d adj = (case adj k of None \<Rightarrow> Inl (KeyError k) | Some v \<Rightarrow> Inr (adj(k \<mapsto> v + d)))"

fun penalise :: "breach list \<Rightarrow> adjustments \<Rightarrow> exn + adjustments" where
  "penalise [] adj = Inr adj"
| "penalise (b # bs) adj =
     (case add_at (breacher b) (- TREATY_BREACH_TRUST_PENALTY) adj of
        Inl e \<Rightarrow> Inl e
      | Inr adj' \<Rightarrow> penalise bs adj')"

fun trust_adjustments_loop :: "enforcement list \<Rightarrow> adjustments \<Rightarrow> exn + adjustments" where
  "trust_adjustments_loop [] adj = Inr adj"
| "trust_adjustments_loop (result # results) adj =
     (let adj1 = setdefault (setdefault adj (res_from result) 0) (res_to result) 0 in
      if breaches result \<noteq> [] then
        (case penalise (breaches result) adj1 of
           Inl e \<Rightarrow> Inl e
         | Inr adj2 \<Rightarrow> trust_adjustments_loop results adj2)
      else
        (case add_at (res_from result) TREATY_HONOR_TRUST_BONUS adj1 of
           Inl e \<Rightarrow> Inl e
         | Inr adj2 \<Rightarrow>
             (case add_at (res_to result) TREATY_HONOR_TRUST_BONUS adj2 of
                Inl e \<Rightarrow> Inl e
              | Inr adj3 \<Rightarrow> trust_adjustments_loop results adj3)))"

definition calculate_trust_adjustments :: "enforcement list \<Rightarrow> exn + adjustments" where
  "calculate_trust_adjustments enforcement_results =
     trust_adjustments_loop enforcement_results Map.empty"

text \<open>
  What one treaty result contributes to a region's trust, in the words of the
  specification: with no breach, the bonus for each of the two roles the region has in
  the treaty; with a breach, the penalty for each breach of the region and no bonus.
\<close>

definition contribution :: "enforcement \<Rightarrow> string \<Rightarrow> int" where
  "contribution result code =
     (if breaches result = [] then
        (if code = res_from result then TREATY_HONOR_TRUST_BONUS else 0)
        + (if code = res_to result then TREATY_HONOR_TRUST_BONUS else 0)
      else - TREATY_BREACH_TRUST_PENALTY * int (length (filter (\<lambda>b. breacher b = code) (breaches result))))"

definition parties :: "enforcement list \<Rightarrow> string set" where
  "parties results = (\<Union>result\<in>set results. {res_from result, res_to result})"

text \<open>
  The example of the specification: a treaty that offers 100 water each tick, between
  a from-region that holds 60 water and a to-region that holds 500.
\<close>

definition breach_regions :: regions where
  "breach_regions =
     [''PB'' \<mapsto> blank_region\<lparr>resources := [''water'' \<mapsto> 60]\<rparr>,
      ''MH'' \<mapsto> blank_region\<lparr>resources := [''water'' \<mapsto> 500]\<rparr>]"

definition breach_treaty :: treaty where
  "breach_treaty =
     \<lparr>treaty_id = ''Treaty_001_PB_MH'', from_region = ''PB'', to_region = ''MH'',
      per_tick_offer = [(''water'', 100)], per_tick_request = [],
      duration_ticks = 20, ticks_remaining = 20, is_active = True,
      treaty_breaches = [], created_tick = 0\<rparr>"

text \<open>
  Two results of one tick: a treaty between PB and MH with both legs delivered, and a
  treaty between TN and KA in which TN breached its leg and KA delivered.
\<close>

definition trust_example :: "enforcement list" where
  "trust_example =
     [\<lparr>res_treaty_id = ''Treaty_001_PB_MH'', res_from = ''PB'', res_to = ''MH'',
       transfers =
         [\<lparr>direction = ''PB -> MH'', tr_resource = ''food'', tr_amount = 10,
           tr_status = ''DELIVERED''\<rparr>,
          \<lparr>direction = ''MH -> PB'', tr_resource = ''tech'', tr_amount = 5,
           tr_status = ''DELIVERED''\<rparr>],
       breaches = []\<rparr>,
      \<lparr>res_treaty_id = ''Treaty_002_TN_KA'', res_from = ''TN'', res_to = ''KA'',
       transfers =
         [\<lparr>direction = ''KA -> TN'', tr_resource = ''water'', tr_amount = 20,
           tr_status = ''DELIVERED''\<rparr>],
       breaches = [\<lparr>breacher = ''TN'', br_resource = ''energy'', shortfall = 30\<rparr>]\<rparr>]"

section \<open>Persistence collaborator (utils/firestore\_helpers.py)\<close>

text \<open>
  The remote store is outside the engine. For one tick it is a read-only value: which of
  its operations raise (by operation name), the climate event documents, and the store's
  own copy of each region's resources, from which \<^verbatim>\<open>trigger_climate_event\<close> computes the
  impact report. The writes that the helper makes into the store are not modelled.
\<close>

record event_doc =
  ev_name :: string
  ev_target_region :: string
  ev_resource_impact :: "(string \<times> real) list"

record firestore =
  fs_raises :: "string \<Rightarrow> exn option"
  fs_climate_events :: "string \<rightharpoonup> event_doc"
  fs_regions :: "string \<rightharpoonup> ledger"

record impact_detail =
  before :: int
  lost :: int
  after :: int

record impact_report =
  imp_event :: string
  imp_target :: string
  impacts :: "(string \<times> impact_detail) list"

text \<open>
  Python's \<^verbatim>\<open>int(x)\<close> on a float: truncation towards zero. Floats are idealised as
  reals throughout: a product such as \<^verbatim>\<open>current * factor\<close> is exact here, while the double
  may fall just under an integer that the exact product reaches.
\<close>

definition py_int :: "real \<Rightarrow> int" where
  "py_int x = (if 0 \<le> x then \<lfloor>x\<rfloor> else \<lceil>x\<rceil>)"

definition trigger_climate_event :: "firestore \<Rightarrow> string \<Rightarrow> exn + impact_report option" where
  "trigger_climate_event fs event_id =
     (case fs_raises fs ''trigger_climate_event'' of
        Some e \<Rightarrow> Inl e
      | None \<Rightarrow>
         (case fs_climate_events fs event_id of
            None \<Rightarrow> Inr None
          | Some event \<Rightarrow>
             (case fs_regions fs (ev_target_region event) of
                None \<Rightarrow> Inr None
              | Some region_resources \<Rightarrow>
                 Inr (Some
                   \<lparr>imp_event = ev_name event, imp_target = ev_target_region event,
                    impacts =
                      map (\<lambda>(resource, factor).
                             let current = dget region_resources resource 0;
                                 loss = py_int \<bar>of_int current * factor\<bar>;
                                 new_val = max 0 (current - loss)
                             in (resource, \<lparr>before = current, lost = loss, after = new_val\<rparr>))
                          (ev_resource_impact event)\<rparr>))))"

definition deactivate_climate_event :: "firestore \<Rightarrow> string \<Rightarrow> exn + unit" where
  "deactivate_climate_event fs event_id =
     (case fs_raises fs ''deactivate_climate_event'' of Some e \<Rightarrow> Inl e | None \<Rightarrow> Inr ())"

section \<open>Climate engine (climate\_engine.py)\<close>

definition CLIMATE_EVENT_PROBABILITY :: real where
  "CLIMATE_EVENT_PROBABILITY = 5 / 100"

definition CLIMATE_MIN_INTERVAL :: int where
  "CLIMATE_MIN_INTERVAL = 5"

definition EVENT_WEIGHTS :: "(string \<times> real) list" where
  "EVENT_WEIGHTS =
     [(''Drought_RJ'', 20 / 100), (''Cyclone_WB'', 15 / 100), (''Flood_BR'', 18 / 100),
      (''Heatwave_UP'', 15 / 100), (''Monsoon_Failure_TN'', 15 / 100),
      (''Industrial_Accident_GJ'', 10 / 100), (''Kaveri_Dispute_KA_TN'', 7 / 100)]"

definition durations :: "(string \<times> int) list" where
  "durations =
     [(''Drought_RJ'', 10), (''Cyclone_WB'', 8), (''Flood_BR'', 6), (''Heatwave_UP'', 5),
      (''Monsoon_Failure_TN'', 12), (''Industrial_Accident_GJ'', 7),
      (''Kaveri_Dispute_KA_TN'', 15)]"

definition targets :: "(string \<times> string) list" where
  "targets =
     [(''Drought_RJ'', ''RJ''), (''Cyclone_WB'', ''WB''), (''Flood_BR'', ''BR''),
      (''Heatwave_UP'', ''UP''), (''Monsoon_Failure_TN'', ''TN''),
      (''Industrial_Accident_GJ'', ''GJ''), (''Kaveri_Dispute_KA_TN'', ''KA'')]"

text \<open>
  \<^verbatim>\<open>active_events\<close> is a dict from event id to remaining ticks, iterated in insertion
  order: an association list with the dict's operations. Assignment overwrites the
  entry of a key that is present and appends otherwise; \<^verbatim>\<open>del\<close> removes the key.
\<close>

definition dict_set :: "('k \<times> 'v) list \<Rightarrow> 'k \<Rightarrow> 'v \<Rightarrow> ('k \<times> 'v) list" where
  "dict_set d k v =
     (if k \<in> fst ` set d then map (\<lambda>(k', v'). if k' = k then (k', v) else (k', v')) d
      else d @ [(k, v)])"

definition dict_del :: "('k \<times> 'v) list \<Rightarrow> 'k \<Rightarrow> ('k \<times> 'v) list" where
  "dict_del d k = filter (\<lambda>(k', v'). k' \<noteq> k) d"

record climate_engine =
  last_event_tick :: int
  active_events :: "(string \<times> int) list"

definition climate_engine_init :: climate_engine where
  "climate_engine_init = \<lparr>last_event_tick = - CLIMATE_MIN_INTERVAL, active_events = []\<rparr>"

text \<open>
  The random source, for one tick: the value of \<^verbatim>\<open>random.random()\<close> in \<^verbatim>\<open>tick\<close> and the
  value that \<^verbatim>\<open>random.choices\<close> draws.
\<close>

record rng =
  rand_random :: real
  rand_choices :: real

text \<open>
  \<^verbatim>\<open>random.choices(population, weights, k=1)[0]\<close>: the library bisects the cumulative
  weights, over the indices below the last one, at the draw scaled by the total.
\<close>

fun accumulate :: "real \<Rightarrow> real list \<Rightarrow> real list" where
  "accumulate acc [] = []"
| "accumulate acc (w # ws) = (acc + w) # accumulate (acc + w) ws"

definition choices :: "'a list \<Rightarrow> real list \<Rightarrow> real \<Rightarrow> 'a" where
  "choices pop weights u =
     (let cum_weights = accumulate 0 weights;
          total = last cum_weights
      in pop ! length (takeWhile (\<lambda>c. c \<le> u * total) (butlast cum_weights)))"

definition select_event :: "climate_engine \<Rightarrow> real \<Rightarrow> string option" where
  "select_event ce u =
     (let available = filter (\<lambda>(e, w). e \<notin> fst ` set (active_events ce)) EVENT_WEIGHTS in
      if available = [] then None
      else
        let total = sum_list (map snd available);
            normalized = map (\<lambda>(e, w). w / total) available
        in Some (choices (map fst available) normalized u))"

text \<open>The dict that \<^verbatim>\<open>_trigger_event\<close> returns.\<close>

record triggered =
  trg_event_id :: string
  trg_target_region :: string
  trg_duration :: int
  trg_impact :: "impact_report option"

definition trigger_event ::
  "climate_engine \<Rightarrow> string \<Rightarrow> firestore option \<Rightarrow> exn + climate_engine \<times> triggered option" where
  "trigger_event ce event_id firestore_helpers =
     (let duration = dget (map_of durations) event_id 5;
          target = dget (map_of targets) event_id [];
          ce' = ce\<lparr>active_events := dict_set (active_events ce) event_id duration\<rparr>
      in case (case firestore_helpers of
                 None \<Rightarrow> Inr None
               | Some fs \<Rightarrow> trigger_climate_event fs event_id) of
           Inl e \<Rightarrow> Inl e
         | Inr impact_report \<Rightarrow>
             Inr (ce', Some \<lparr>trg_event_id = event_id, trg_target_region = target,
                             trg_duration = duration, trg_impact = impact_report\<rparr>))"

definition force_trigger ::
  "climate_engine \<Rightarrow> string \<Rightarrow> firestore option \<Rightarrow> exn + climate_engine \<times> triggered option" where
  "force_trigger ce event_id firestore_helpers = trigger_event ce event_id firestore_helpers"

datatype climate_event = TRIGGERED triggered | EXPIRED string

text \<open>The second loop of \<^verbatim>\<open>tick\<close>, over the expired ids.\<close>

fun expire_loop ::
  "firestore option \<Rightarrow> string list \<Rightarrow> (string \<times> int) list \<times> climate_event list
   \<Rightarrow> exn + (string \<times> int) list \<times> climate_event list" where
  "expire_loop firestore_helpers [] (active, events) = Inr (active, events)"
| "expire_loop firestore_helpers (event_id # ids) (active, events) =
     (case (case firestore_helpers of
              None \<Rightarrow> Inr ()
            | Some fs \<Rightarrow> deactivate_climate_event fs event_id) of
        Inl e \<Rightarrow> Inl e
      | Inr _ \<Rightarrow>
          expire_loop firestore_helpers ids
            (dict_del active event_id, events @ [EXPIRED event_id]))"

text \<open>
  \<^verbatim>\<open>ClimateEngine.tick\<close>. The first part may trigger one event; the second decrements
  every active event, the one just triggered included, and expires those at zero.
\<close>

definition climate_new_events ::
  "climate_engine \<Rightarrow> int \<Rightarrow> rng \<Rightarrow> firestore option \<Rightarrow> exn + climate_engine \<times> climate_event list" where
  "climate_new_events ce current_tick rnd firestore_helpers =
     (let ticks_since_last = current_tick - last_event_tick ce in
      if ticks_since_last \<ge> CLIMATE_MIN_INTERVAL \<and> rand_random rnd < CLIMATE_EVENT_PROBABILITY then
        (case select_event ce (rand_choices rnd) of
           None \<Rightarrow> Inr (ce, [])
         | Some event \<Rightarrow>
             if event \<noteq> [] \<and> event \<notin> fst ` set (active_events ce) then
               (case trigger_event ce event firestore_helpers of
                  Inl e \<Rightarrow> Inl e
                | Inr (ce', None) \<Rightarrow> Inr (ce', [])
                | Inr (ce', Some impact) \<Rightarrow>
                    Inr (ce'\<lparr>last_event_tick := current_tick\<rparr>, [TRIGGERED impact]))
             else Inr (ce, []))
      else Inr (ce, []))"

definition climate_tick ::
  "climate_engine \<Rightarrow> int \<Rightarrow> rng \<Rightarrow> firestore option \<Rightarrow> exn + climate_engine \<times> climate_event list" where
  "climate_tick ce current_tick rnd firestore_helpers =
     (case climate_new_events ce current_tick rnd firestore_helpers of
        Inl e \<Rightarrow> Inl e
      | Inr (ce1, events) \<Rightarrow>
          let decremented = map (\<lambda>(event_id, ticks_left). (event_id, ticks_left - 1))
                                (active_events ce1);
              expired = map fst (filter (\<lambda>(event_id, ticks_left). ticks_left \<le> 0) decremented)
          in case expire_loop firestore_helpers expired (decremented, events) of
               Inl e \<Rightarrow> Inl e
             | Inr (active, events') \<Rightarrow> Inr (ce1\<lparr>active_events := active\<rparr>, events'))"

text \<open>
  Consecutive ticks of the climate engine, the first at \<open>current_tick\<close>, each with its
  own random draws and its own view of the store. The result is the final engine and the
  event list of each tick.
\<close>

fun climate_run ::
  "climate_engine \<Rightarrow> int \<Rightarrow> (rng \<times> firestore option) list
   \<Rightarrow> exn + climate_engine \<times> climate_event list list" where
  "climate_run ce current_tick [] = Inr (ce, [])"
| "climate_run ce current_tick ((rnd, firestore_helpers) # inputs) =
     (case climate_tick ce current_tick rnd firestore_helpers of
        Inl e \<Rightarrow> Inl e
      | Inr (ce', events) \<Rightarrow>
          (case climate_run ce' (current_tick + 1) inputs of
             Inl e \<Rightarrow> Inl e
           | Inr (ce'', eventss) \<Rightarrow> Inr (ce'', events # eventss)))"

text \<open>\<^verbatim>\<open>get_affected_regions\<close>\<close>

definition get_affected_regions :: "climate_engine \<Rightarrow> string set" where
  "get_affected_regions ce =
     (\<lambda>e. dget (map_of targets) e []) `
       {e \<in> fst ` set (active_events ce). e \<in> fst ` set targets}"

text \<open>
  A run of the engine used as an example: the draws of the first tick trigger the
  heatwave (catalog duration 5), the draws of the later ticks trigger nothing.
\<close>

definition heat_rnd :: rng where
  "heat_rnd = \<lparr>rand_random = 0, rand_choices = 6 / 10\<rparr>"

definition quiet_rnd :: rng where
  "quiet_rnd = \<lparr>rand_random = 1, rand_choices = 0\<rparr>"

definition heat_info :: triggered where
  "heat_info = \<lparr>trg_event_id = ''Heatwave_UP'', trg_target_region = ''UP'',
                 trg_duration = 5, trg_impact = None\<rparr>"

definition heat_engine :: "int \<Rightarrow> climate_engine" where
  "heat_engine n = \<lparr>last_event_tick = 1, active_events = [(''Heatwave_UP'', n)]\<rparr>"

definition heat_engine_final :: climate_engine where
  "heat_engine_final = \<lparr>last_event_tick = 1, active_events = []\<rparr>"

section \<open>Collaborators: financial analysis and advisory capability\<close>

text \<open>
  The report that \<^verbatim>\<open>FinOpsAgent.analyze\<close> returns, as the engine reads it: every entry
  is read with \<^verbatim>\<open>.get\<close> and a default, so every entry is optional. The agents
  themselves are outside the engine: they are functions that return a value or raise.
\<close>

record trade_rec =
  action :: "string option"
  offer_resource :: "string option"
  request_resource :: "string option"
  offer_amount :: "int option"
  request_amount :: "int option"

record report =
  needs_governor :: "bool option"
  health_score :: "real option"
  deficits :: "(string \<times> real option) list"
  surpluses :: "(string \<times> int option) list"
  trade_recommendations :: "trade_rec list"

record trade_proposal =
  offering :: "(string \<times> int) list option"
  requesting :: "(string \<times> int) list option"

record proposal =
  policy_name :: "string option"
  proposer :: "string option"
  speech :: "string option"
  proposal_duration_ticks :: "int option"

record vote_result =
  vote :: "string option"
  vote_reasoning :: "string option"

text \<open>
  \<^verbatim>\<open>GovernorAgent\<close>: its three calls. The national summary that the assembly passes to
  \<^verbatim>\<open>propose_federal_policy\<close> is a projection of the state reports, which are passed
  here in its place.
\<close>

record governor =
  negotiate_trade :: "report \<Rightarrow> string \<Rightarrow> (string \<times> int option) list \<Rightarrow> exn + trade_proposal"
  propose_federal_policy :: "report \<Rightarrow> (string \<rightharpoonup> report) \<Rightarrow> exn + proposal"
  vote_on_policy :: "report \<Rightarrow> proposal \<Rightarrow> exn + vote_result"

section \<open>Federal assembly (parliament.py)\<close>

definition FEDERAL_ASSEMBLY_INTERVAL :: int where
  "FEDERAL_ASSEMBLY_INTERVAL = 50"

definition FEDERAL_ASSEMBLY_MAJORITY :: real where
  "FEDERAL_ASSEMBLY_MAJORITY = 6 / 10"

record vote_record =
  vr_policy_name :: string
  vr_proposer :: string
  yes_votes :: "string list"
  no_votes :: "string list"
  yes_count :: nat
  no_count :: nat
  ratio :: real
  passed :: bool
  vr_proposal :: proposal

record resolution =
  rs_name :: string
  rs_proposal :: proposal
  tick_passed :: int

record meeting_result =
  meeting_number :: nat
  mr_tick :: int
  proposals_count :: nat
  voting_results :: "vote_record list"
  mr_passed_resolutions :: "string list"

record parliament =
  meeting_count :: nat
  passed_resolutions :: "resolution list"
  meeting_history :: "meeting_result list"

text \<open>\<^verbatim>\<open>str.upper()\<close> on ASCII text.\<close>

definition upper_char :: "char \<Rightarrow> char" where
  "upper_char c =
     (case map_of (zip ''abcdefghijklmnopqrstuvwxyz'' ''ABCDEFGHIJKLMNOPQRSTUVWXYZ'') c of
        None \<Rightarrow> c
      | Some u \<Rightarrow> u)"

definition upper :: "string \<Rightarrow> string" where
  "upper s = map upper_char s"

text \<open>
  Python's \<^verbatim>\<open>round(x, ndigits)\<close>, idealised on reals: the nearest multiple of
  \<open>10 ^ (- ndigits)\<close>, a tie going to the even one. Python rounds the double, which is
  seldom exactly on a tie: the two agree wherever the exact value is not a tie.
\<close>

definition round_half_even :: "real \<Rightarrow> int" where
  "round_half_even x =
     (let f = \<lfloor>x\<rfloor>; d = x - of_int f in
      if d < 1 / 2 then f else if 1 / 2 < d then f + 1 else if even f then f else f + 1)"

definition py_round :: "real \<Rightarrow> nat \<Rightarrow> real" where
  "py_round x ndigits = of_int (round_half_even (x * 10 ^ ndigits)) / 10 ^ ndigits"

text \<open>Phase 1: one proposal from every state that has a governor and a report.\<close>

fun collect_proposals ::
  "(string \<rightharpoonup> governor) \<Rightarrow> (string \<rightharpoonup> report) \<Rightarrow> string list \<Rightarrow> exn + proposal list" where
  "collect_proposals governors state_reports [] = Inr []"
| "collect_proposals governors state_reports (code # codes) =
     (case (governors code, state_reports code) of
        (Some gov, Some rep) \<Rightarrow>
          (case propose_federal_policy gov rep state_reports of
             Inl e \<Rightarrow> Inl e
           | Inr p \<Rightarrow>
               (case collect_proposals governors state_reports codes of
                  Inl e \<Rightarrow> Inl e
                | Inr ps \<Rightarrow> Inr (p # ps)))
      | _ \<Rightarrow> collect_proposals governors state_reports codes)"

text \<open>
  Phase 3, the inner loop: every state votes on one proposal. The state is the pair of
  lists \<^verbatim>\<open>votes["YES"]\<close>, \<^verbatim>\<open>votes["NO"]\<close>. A vote that is neither YES nor NO counts as
  YES.
\<close>

fun collect_votes ::
  "(string \<rightharpoonup> governor) \<Rightarrow> (string \<rightharpoonup> report) \<Rightarrow> proposal \<Rightarrow> string list
   \<Rightarrow> string list \<times> string list \<Rightarrow> exn + string list \<times> string list" where
  "collect_votes governors state_reports p [] votes = Inr votes"
| "collect_votes governors state_reports p (code # codes) (yes, no) =
     (case (governors code, state_reports code) of
        (Some gov, Some rep) \<Rightarrow>
          (case vote_on_policy gov rep p of
             Inl e \<Rightarrow> Inl e
           | Inr vote_result \<Rightarrow>
               let v = upper (case vote vote_result of None \<Rightarrow> ''YES'' | Some s \<Rightarrow> s) in
               collect_votes governors state_reports p codes
                 (if v = ''YES'' then (yes @ [code], no)
                  else if v = ''NO'' then (yes, no @ [code])
                  else (yes @ [code], no)))
      | _ \<Rightarrow> collect_votes governors state_reports p codes (yes, no))"

text \<open>The tally of one ballot item.\<close>

definition tally :: "proposal \<Rightarrow> string list \<times> string list \<Rightarrow> vote_record" where
  "tally p votes =
     (case votes of (yes, no) \<Rightarrow>
        let total_voters = length yes + length no;
            yes_ratio = (if total_voters > 0 then of_nat (length yes) / of_nat total_voters else 0);
            passed = (yes_ratio \<ge> FEDERAL_ASSEMBLY_MAJORITY)
        in \<lparr>vr_policy_name = (case policy_name p of None \<Rightarrow> ''Unknown Policy'' | Some n \<Rightarrow> n),
            vr_proposer = (case proposer p of None \<Rightarrow> ''??'' | Some n \<Rightarrow> n),
            yes_votes = yes, no_votes = no,
            yes_count = length yes, no_count = length no,
            ratio = py_round yes_ratio 2, passed = passed, vr_proposal = p\<rparr>)"

text \<open>
  Phase 3, the outer loop over the ballot, threading \<^verbatim>\<open>self.passed_resolutions\<close>, the
  names passed in this meeting and the vote records.
\<close>

fun vote_on_proposals ::
  "(string \<rightharpoonup> governor) \<Rightarrow> (string \<rightharpoonup> report) \<Rightarrow> int \<Rightarrow> proposal list
   \<Rightarrow> resolution list \<times> string list \<times> vote_record list
   \<Rightarrow> exn + resolution list \<times> string list \<times> vote_record list" where
  "vote_on_proposals governors state_reports current_tick [] st = Inr st"
| "vote_on_proposals governors state_reports current_tick (p # ps) (resolutions, names, records) =
     (case collect_votes governors state_reports p STATE_CODES ([], []) of
        Inl e \<Rightarrow> Inl e
      | Inr votes \<Rightarrow>
          let vote_record = tally p votes in
          vote_on_proposals governors state_reports current_tick ps
            (if passed vote_record
             then (resolutions @ [\<lparr>rs_name = vr_policy_name vote_record, rs_proposal = p,
                                    tick_passed = current_tick\<rparr>],
                   names @ [vr_policy_name vote_record], records @ [vote_record])
             else (resolutions, names, records @ [vote_record])))"

text \<open>
  \<^verbatim>\<open>convene_assembly\<close>. The ballot is the first three proposals in submission order. The
  transcript and the console output are not modelled; the logging of the meeting to the
  store is wrapped in \<^verbatim>\<open>try/except\<close> and changes nothing here.
\<close>

definition convene_assembly ::
  "parliament \<Rightarrow> (string \<rightharpoonup> governor) \<Rightarrow> (string \<rightharpoonup> report) \<Rightarrow> int
   \<Rightarrow> exn + parliament \<times> meeting_result" where
  "convene_assembly parl governors state_reports current_tick =
     (let count = meeting_count parl + 1 in
      case collect_proposals governors state_reports STATE_CODES of
        Inl e \<Rightarrow> Inl e
      | Inr proposals \<Rightarrow>
          let top_proposals = take 3 proposals in
          (case vote_on_proposals governors state_reports current_tick top_proposals
                  (passed_resolutions parl, [], []) of
             Inl e \<Rightarrow> Inl e
           | Inr (resolutions, names, records) \<Rightarrow>
               let meeting = \<lparr>meeting_number = count, mr_tick = current_tick,
                               proposals_count = length proposals,
                               voting_results = records,
                               mr_passed_resolutions = names\<rparr>
               in Inr (parl\<lparr>meeting_count := count, passed_resolutions := resolutions,
                            meeting_history := meeting_history parl @ [meeting]\<rparr>,
                       meeting)))"

text \<open>\<^verbatim>\<open>get_active_resolutions\<close>\<close>

definition get_active_resolutions :: "parliament \<Rightarrow> int \<Rightarrow> int \<Rightarrow> resolution list" where
  "get_active_resolutions parl current_tick default_duration =
     filter (\<lambda>res. current_tick - tick_passed res
                     < (case proposal_duration_ticks (rs_proposal res) of
                          None \<Rightarrow> default_duration | Some d \<Rightarrow> d))
            (passed_resolutions parl)"

text \<open>A proposal, and the two tallies of the specification's example.\<close>

definition example_proposal :: proposal where
  "example_proposal =
     \<lparr>policy_name = Some ''Water Sharing Act'', proposer = Some ''PB'',
      speech = Some ''We must share.'', proposal_duration_ticks = None\<rparr>"

section \<open>World orchestrator (world\_env.py): the steps\<close>

definition LLM_PERIODIC_INTERVAL :: int where
  "LLM_PERIODIC_INTERVAL = 10"

definition REWARD_LAMBDA :: real where
  "REWARD_LAMBDA = 5 / 10"

definition WELFARE_MIGRATION_THRESHOLD :: real where
  "WELFARE_MIGRATION_THRESHOLD = 35"

definition MIGRATION_RATE :: real where
  "MIGRATION_RATE = 2 / 100"

definition RESOURCE_MAX :: "string \<Rightarrow> real" where
  "RESOURCE_MAX res = (if res = ''tech'' then 12000 else 15000)"

subsection \<open>Step 2: internal policies\<close>

text \<open>
  The body of the loop of \<^verbatim>\<open>_step_apply_policies\<close> on the resources dict of one region:
  the food subsidy, then the water tax, each reading the dict as the previous writes
  left it.
\<close>

definition apply_policies_region :: "region \<Rightarrow> ledger" where
  "apply_policies_region r =
     (let policies = internal_policies r;
          res0 = resources r;
          food_sub = dget policies ''food_subsidy'' 0;
          res1 = (if food_sub > 0 then
                    let food_bonus = py_int (of_int (dget res0 ''food'' 0) * food_sub * (1 / 10));
                        energy_cost = py_int (of_int food_bonus * (5 / 10));
                        res_food = res0(''food'' \<mapsto> dget res0 ''food'' 0 + food_bonus)
                    in res_food(''energy'' \<mapsto> max 0 (dget res_food ''energy'' 0 - energy_cost))
                  else res0);
          water_tax = dget policies ''water_tax'' 0
      in if water_tax > 0 then
           let water_saved = py_int (of_int (dget res1 ''water'' 0) * water_tax * (5 / 100))
           in res1(''water'' \<mapsto> dget res1 ''water'' 0 + water_saved)
         else res1)"

fun apply_policies_loop :: "string list \<Rightarrow> regions \<Rightarrow> exn + regions" where
  "apply_policies_loop [] rd = Inr rd"
| "apply_policies_loop (code # codes) rd =
     (case rd code of
        None \<Rightarrow> Inl (KeyError code)
      | Some r \<Rightarrow> apply_policies_loop codes (rd(code \<mapsto> r\<lparr>resources := apply_policies_region r\<rparr>)))"

definition step_apply_policies :: "regions \<Rightarrow> exn + regions" where
  "step_apply_policies rd = apply_policies_loop STATE_CODES rd"

subsection \<open>Step 3: treaty enforcement\<close>

text \<open>
  The trust adjustments are applied to the regions that exist, each clamped to
  \<open>[0, 100]\<close>; the keys of the adjustments dict are distinct, so the order of the loop
  does not matter.
\<close>

definition apply_trust_adjustments :: "adjustments \<Rightarrow> regions \<Rightarrow> regions" where
  "apply_trust_adjustments adj rd =
     (\<lambda>code. case adj code of
                None \<Rightarrow> rd code
              | Some a \<Rightarrow>
                  map_option
                    (\<lambda>r. r\<lparr>trust_score :=
                             Some (max 0 (min 100 (oget (trust_score r) 100 + of_int a)))\<rparr>)
                    (rd code))"

definition step_enforce_treaties ::
  "treaty_manager \<Rightarrow> int \<Rightarrow> regions \<Rightarrow> exn + regions \<times> treaty_manager \<times> enforcement list" where
  "step_enforce_treaties tm current_tick rd =
     (if active_treaties tm = [] then Inr (rd, tm, [])
      else
        case enforce_treaties tm current_tick rd (Some update_region_resources_local) of
          (rd1, tm', results) \<Rightarrow>
            (case calculate_trust_adjustments results of
               Inl e \<Rightarrow> Inl e
             | Inr adj \<Rightarrow> Inr (apply_trust_adjustments adj rd1, tm', results)))"

subsection \<open>Step 4: financial analysis\<close>

text \<open>
  \<^verbatim>\<open>_step_finops_analysis\<close>: the call of each agent is not wrapped; what it raises leaves
  the loop and the step. A code without a region document is analysed as the empty
  dict (\<open>None\<close>).
\<close>

fun finops_loop ::
  "(string \<Rightarrow> region option \<Rightarrow> exn + report) \<Rightarrow> regions \<Rightarrow> string list
   \<Rightarrow> (string \<rightharpoonup> report) \<Rightarrow> exn + (string \<rightharpoonup> report)" where
  "finops_loop analyze rd [] reports = Inr reports"
| "finops_loop analyze rd (code # codes) reports =
     (case analyze code (rd code) of
        Inl e \<Rightarrow> Inl e
      | Inr rep \<Rightarrow> finops_loop analyze rd codes (reports(code \<mapsto> rep)))"

definition step_finops_analysis ::
  "(string \<Rightarrow> region option \<Rightarrow> exn + report) \<Rightarrow> regions \<Rightarrow> exn + (string \<rightharpoonup> report)" where
  "step_finops_analysis analyze rd = finops_loop analyze rd STATE_CODES Map.empty"

subsection \<open>Step 5: climate\<close>

text \<open>
  A triggered event whose target exists and whose impact report is present overwrites
  the target's stock of each impacted resource with the report's \<^verbatim>\<open>after\<close> value.
\<close>

definition apply_climate_event :: "climate_event \<Rightarrow> regions \<Rightarrow> regions" where
  "apply_climate_event event rd =
     (case event of
        EXPIRED event_id \<Rightarrow> rd
      | TRIGGERED info \<Rightarrow>
          (case (rd (trg_target_region info), trg_impact info) of
             (Some r, Some impact) \<Rightarrow>
               rd(trg_target_region info \<mapsto>
                    r\<lparr>resources := fold (\<lambda>(resource, details) res. res(resource \<mapsto> after details))
                                        (impacts impact) (resources r)\<rparr>)
           | _ \<Rightarrow> rd))"

definition step_climate ::
  "climate_engine \<Rightarrow> int \<Rightarrow> rng \<Rightarrow> firestore option \<Rightarrow> regions
   \<Rightarrow> exn + regions \<times> climate_engine \<times> climate_event list" where
  "step_climate ce current_tick rnd firestore_helpers rd =
     (case climate_tick ce current_tick rnd firestore_helpers of
        Inl e \<Rightarrow> Inl e
      | Inr (ce', events) \<Rightarrow> Inr (fold apply_climate_event events rd, ce', events))"

subsection \<open>Direct trades\<close>

text \<open>
  \<^verbatim>\<open>_execute_direct_trade\<close> works on two dict references, \<^verbatim>\<open>from_res\<close> and \<^verbatim>\<open>to_res\<close>. They
  are the resources of the two regions, or a fresh empty dict for a code with no
  region; they are one and the same dict when the two codes are the same existing
  region (\<open>alias\<close>). One item moves \<open>min amount (stock of the sender)\<close> from \<open>src\<close> to \<open>dst\<close>:
  the sender is clamped at zero, the receiver is not clamped.
\<close>

definition transfer_item :: "bool \<Rightarrow> string \<times> int \<Rightarrow> ledger \<times> ledger \<Rightarrow> ledger \<times> ledger" where
  "transfer_item alias item cells =
     (case (item, cells) of ((res, amount0), (src, dst)) \<Rightarrow>
        let amount = min amount0 (dget src res 0);
            src' = src(res \<mapsto> max 0 (dget src res 0 - amount));
            dst0 = (if alias then src' else dst);
            dst' = dst0(res \<mapsto> dget dst0 res 0 + amount)
        in (if alias then dst' else src', dst'))"

definition put_resources :: "string \<Rightarrow> ledger \<Rightarrow> regions \<Rightarrow> regions" where
  "put_resources code res rd =
     (case rd code of None \<Rightarrow> rd | Some r \<Rightarrow> rd(code \<mapsto> r\<lparr>resources := res\<rparr>))"

definition execute_direct_trade ::
  "regions \<Rightarrow> string \<Rightarrow> string \<Rightarrow> (string \<times> int) list \<Rightarrow> (string \<times> int) list \<Rightarrow> regions" where
  "execute_direct_trade rd from_code to_code offer request =
     (let alias = (from_code = to_code \<and> rd from_code \<noteq> None);
          from_res = (case rd from_code of None \<Rightarrow> Map.empty | Some r \<Rightarrow> resources r);
          to_res = (case rd to_code of None \<Rightarrow> Map.empty | Some r \<Rightarrow> resources r)
      in case fold (transfer_item alias) offer (from_res, to_res) of
           (from_res1, to_res1) \<Rightarrow>
             (case fold (transfer_item alias) request (to_res1, from_res1) of
                (to_res2, from_res2) \<Rightarrow>
                  put_resources to_code to_res2 (put_resources from_code from_res2 rd)))"

subsection \<open>Step 6: advisory negotiation\<close>

text \<open>The report of a code that has none: the empty dict, every read gives its default.\<close>

definition empty_report :: report where
  "empty_report = \<lparr>needs_governor = None, health_score = None, deficits = [],
                    surpluses = [], trade_recommendations = []\<rparr>"

definition report_of :: "(string \<rightharpoonup> report) \<Rightarrow> string \<Rightarrow> report" where
  "report_of state_reports code = dget state_reports code empty_report"

text \<open>\<^verbatim>\<open>max(items, key=...)\<close>: the first item with the largest key.\<close>

definition py_max_by :: "('a \<Rightarrow> real) \<Rightarrow> 'a \<Rightarrow> 'a list \<Rightarrow> 'a" where
  "py_max_by key x xs = fold (\<lambda>y best. if key y > key best then y else best) xs x"

text \<open>The partner search shared by the loop of \<^verbatim>\<open>_governor_negotiate\<close>.\<close>

definition find_best_partner ::
  "(string \<rightharpoonup> report) \<Rightarrow> string \<Rightarrow> string \<Rightarrow> string option" where
  "find_best_partner state_reports code needed_resource =
     fst (fold (\<lambda>other_code (best_partner, best_surplus).
                  if other_code = code then (best_partner, best_surplus)
                  else
                    (case map_of (surpluses (report_of state_reports other_code)) needed_resource of
                       None \<Rightarrow> (best_partner, best_surplus)
                     | Some entry \<Rightarrow>
                         let available = oget entry 0 in
                         if available > best_surplus then (Some other_code, available)
                         else (best_partner, best_surplus)))
               STATE_CODES (None, 0))"

record llm_action =
  la_from :: string
  la_to :: string
  la_proposal :: trade_proposal

text \<open>
  \<^verbatim>\<open>_governor_negotiate\<close>. Everything from the governor's call on is inside
  \<^verbatim>\<open>try/except Exception\<close>: a missing governor or a raising one yields no action and an
  unchanged ledger.
\<close>

definition governor_negotiate ::
  "(string \<rightharpoonup> governor) \<Rightarrow> (string \<rightharpoonup> report) \<Rightarrow> regions \<Rightarrow> string \<Rightarrow> report
   \<Rightarrow> regions \<times> llm_action option" where
  "governor_negotiate governors state_reports rd code rep =
     (case deficits rep of
        [] \<Rightarrow> (rd, None)
      | d # ds \<Rightarrow>
          let top_deficit = py_max_by (\<lambda>x. oget (snd x) 0) d ds;
              needed_resource = fst top_deficit
          in case find_best_partner state_reports code needed_resource of
               None \<Rightarrow> (rd, None)
             | Some best_partner \<Rightarrow>
                 if best_partner = [] then (rd, None)
                 else
                   let partner_surpluses = surpluses (report_of state_reports best_partner) in
                   (case governors code of
                      None \<Rightarrow> (rd, None)
                    | Some gov \<Rightarrow>
                        (case negotiate_trade gov rep best_partner partner_surpluses of
                           Inl e \<Rightarrow> (rd, None)
                         | Inr p \<Rightarrow>
                             let offer = oget (offering p) [];
                                 request = oget (requesting p) []
                             in if offer \<noteq> [] \<and> request \<noteq> [] then
                                  (execute_direct_trade rd code best_partner offer request,
                                   Some \<lparr>la_from = code, la_to = best_partner, la_proposal = p\<rparr>)
                                else (rd, None))))"

fun governor_decisions_loop ::
  "(string \<rightharpoonup> governor) \<Rightarrow> (string \<rightharpoonup> report) \<Rightarrow> bool \<Rightarrow> string set \<Rightarrow> string list
   \<Rightarrow> regions \<times> llm_action list \<Rightarrow> regions \<times> llm_action list" where
  "governor_decisions_loop governors state_reports invoke_all affected [] st = st"
| "governor_decisions_loop governors state_reports invoke_all affected (code # codes) (rd, actions) =
     (let rep = report_of state_reports code;
          needs_action = (invoke_all \<or> oget (needs_governor rep) False \<or> code \<in> affected)
      in if \<not> needs_action
         then governor_decisions_loop governors state_reports invoke_all affected codes (rd, actions)
         else
           (case governor_negotiate governors state_reports rd code rep of
              (rd', None) \<Rightarrow>
                governor_decisions_loop governors state_reports invoke_all affected codes (rd', actions)
            | (rd', Some trade_action) \<Rightarrow>
                governor_decisions_loop governors state_reports invoke_all affected codes
                  (rd', actions @ [trade_action])))"

definition step_governor_decisions ::
  "(string \<rightharpoonup> governor) \<Rightarrow> (string \<rightharpoonup> report) \<Rightarrow> climate_engine \<Rightarrow> int \<Rightarrow> regions
   \<Rightarrow> regions \<times> llm_action list" where
  "step_governor_decisions governors state_reports ce current_tick rd =
     governor_decisions_loop governors state_reports
       (current_tick mod LLM_PERIODIC_INTERVAL = 0) (get_affected_regions ce)
       STATE_CODES (rd, [])"

subsection \<open>Step 7: heuristic trade matching\<close>

record trade =
  td_from :: string
  td_to :: string
  offered :: "string \<times> int"
  received :: "string \<times> int"
  td_type :: string

text \<open>
  The innermost loop of \<^verbatim>\<open>_step_trade_matching\<close>: the first other state whose surplus of
  the requested resource meets the requested amount trades, and the loop breaks.
\<close>

fun match_partner ::
  "(string \<rightharpoonup> report) \<Rightarrow> string \<Rightarrow> string \<times> int \<Rightarrow> string \<times> int \<Rightarrow> string list
   \<Rightarrow> regions \<times> trade list \<Rightarrow> regions \<times> trade list" where
  "match_partner state_reports code offer request [] st = st"
| "match_partner state_reports code offer request (other_code # codes) (rd, trades) =
     (if other_code = code then match_partner state_reports code offer request codes (rd, trades)
      else
        (case map_of (surpluses (report_of state_reports other_code)) (fst request) of
           None \<Rightarrow> match_partner state_reports code offer request codes (rd, trades)
         | Some entry \<Rightarrow>
             let available = oget entry 0 in
             if available \<ge> snd request then
               (let actual_request = min (snd request) available in
                (execute_direct_trade rd code other_code [offer] [(fst request, actual_request)],
                 trades @ [\<lparr>td_from = code, td_to = other_code, offered = offer,
                             received = (fst request, actual_request), td_type = ''AUTO''\<rparr>]))
             else match_partner state_reports code offer request codes (rd, trades)))"

text \<open>The loop over the recommendations of one state.\<close>

fun match_recommendations ::
  "(string \<rightharpoonup> report) \<Rightarrow> string \<Rightarrow> trade_rec list \<Rightarrow> regions \<times> trade list
   \<Rightarrow> regions \<times> trade list" where
  "match_recommendations state_reports code [] st = st"
| "match_recommendations state_reports code (rec # recs) st =
     (if action rec \<noteq> Some ''TRADE'' then match_recommendations state_reports code recs st
      else
        let offer_res = oget (offer_resource rec) [];
            request_res = oget (request_resource rec) [];
            offer_amt = oget (offer_amount rec) 0;
            request_amt = oget (request_amount rec) 0
        in if offer_res = [] \<or> request_res = [] \<or> offer_amt \<le> 0
           then match_recommendations state_reports code recs st
           else match_recommendations state_reports code recs
                  (match_partner state_reports code (offer_res, offer_amt)
                     (request_res, request_amt) STATE_CODES st))"

fun trade_matching_loop ::
  "(string \<rightharpoonup> report) \<Rightarrow> string list \<Rightarrow> regions \<times> trade list \<Rightarrow> regions \<times> trade list" where
  "trade_matching_loop state_reports [] st = st"
| "trade_matching_loop state_reports (code # codes) st =
     trade_matching_loop state_reports codes
       (match_recommendations state_reports code
          (trade_recommendations (report_of state_reports code)) st)"

definition step_trade_matching :: "(string \<rightharpoonup> report) \<Rightarrow> regions \<Rightarrow> regions \<times> trade list" where
  "step_trade_matching state_reports rd = trade_matching_loop state_reports STATE_CODES (rd, [])"

subsection \<open>Step 8: migration\<close>

record migration =
  mg_from :: string
  mg_to :: string
  migrants :: int

text \<open>The search for the destination: the first state with the highest welfare above zero.\<close>

definition best_destination :: "regions \<Rightarrow> string \<Rightarrow> string option \<times> real" where
  "best_destination rd code =
     fold (\<lambda>dest_code (best_dest, best_welfare).
             if dest_code = code then (best_dest, best_welfare)
             else
               let dest_welfare = (case rd dest_code of
                                     None \<Rightarrow> 0
                                   | Some r \<Rightarrow> oget (welfare_score r) 0)
               in if dest_welfare > best_welfare then (Some dest_code, dest_welfare)
                  else (best_dest, best_welfare))
          STATE_CODES (None, 0)"

text \<open>
  The body of the loop of \<^verbatim>\<open>_step_migration\<close> for one state. The writes
  \<^verbatim>\<open>self.regions_data[code]["population"] = ...\<close> raise KeyError for a code without a
  region.
\<close>

definition migrate_from ::
  "string \<Rightarrow> regions \<times> migration list \<Rightarrow> exn + regions \<times> migration list" where
  "migrate_from code st =
     (case st of (rd, migrations) \<Rightarrow>
        let welfare = (case rd code of None \<Rightarrow> 50 | Some r \<Rightarrow> oget (welfare_score r) 50) in
        if welfare < WELFARE_MIGRATION_THRESHOLD then
          (case best_destination rd code of
             (Some best_dest, best_welfare) \<Rightarrow>
               if best_dest \<noteq> [] \<and> best_welfare > welfare then
                 (let pop = (case rd code of None \<Rightarrow> 0 | Some r \<Rightarrow> oget (population r) 0);
                      n = py_int (of_int pop * MIGRATION_RATE)
                  in if n > 0 then
                       (case rd code of
                          None \<Rightarrow> Inl (KeyError code)
                        | Some r \<Rightarrow>
                            let rd1 = rd(code \<mapsto> r\<lparr>population := Some (pop - n)\<rparr>) in
                            (case rd1 best_dest of
                               None \<Rightarrow> Inl (KeyError best_dest)
                             | Some d \<Rightarrow>
                                 let dest_pop = oget (population d) 0 in
                                 Inr (rd1(best_dest \<mapsto> d\<lparr>population := Some (dest_pop + n)\<rparr>),
                                      migrations @ [\<lparr>mg_from = code, mg_to = best_dest,
                                                      migrants = n\<rparr>])))
                     else Inr (rd, migrations))
               else Inr (rd, migrations)
           | (None, best_welfare) \<Rightarrow> Inr (rd, migrations))
        else Inr (rd, migrations))"

fun migration_loop ::
  "string list \<Rightarrow> regions \<times> migration list \<Rightarrow> exn + regions \<times> migration list" where
  "migration_loop [] st = Inr st"
| "migration_loop (code # codes) st =
     (case migrate_from code st of Inl e \<Rightarrow> Inl e | Inr st' \<Rightarrow> migration_loop codes st')"

definition step_migration :: "regions \<Rightarrow> exn + regions \<times> migration list" where
  "step_migration rd = migration_loop STATE_CODES (rd, [])"

subsection \<open>Step 10: rewards, GDP and welfare\<close>

text \<open>
  The body of the loop of \<^verbatim>\<open>_step_rewards\<close> for one region: the GDP score, the welfare
  score and the new unrest level, from the resources, the population and the two
  demographics entries.
\<close>

definition gdp_of :: "region \<Rightarrow> real" where
  "gdp_of r =
     (let res = resources r;
          pop = oget (population r) 1;
          workforce = oget (workforce_efficiency r) (5 / 10);
          tech = dget res ''tech'' 0;
          energy = dget res ''energy'' 0;
          pop_millions = max 1 (of_int pop / 1000000);
          resource_index = of_int tech * (4 / 1000) + of_int energy * (2 / 1000)
                           + of_int (dget res ''food'' 0) * (1 / 1000)
                           + of_int (dget res ''water'' 0) * (1 / 1000);
          gdp = (resource_index / pop_millions * 10) * workforce
      in py_round (min 100 (max 0 gdp)) 1)"

definition welfare_of :: "region \<Rightarrow> real" where
  "welfare_of r =
     (let res = resources r;
          food = dget res ''food'' 0;
          water = dget res ''water'' 0;
          food_ratio = min 1 (of_int food / max 1 (RESOURCE_MAX ''food'' * (3 / 10)));
          water_ratio = min 1 (of_int water / max 1 (RESOURCE_MAX ''water'' * (2 / 10)));
          unrest = oget (unrest_level r) 0;
          welfare = food_ratio * 40 + water_ratio * 40 + (1 - unrest) * 20
      in py_round (min 100 (max 0 welfare)) 1)"

definition new_unrest_of :: "region \<Rightarrow> real" where
  "new_unrest_of r =
     (let unrest = oget (unrest_level r) 0; welfare = welfare_of r in
      if welfare < 40 then min 1 (unrest + 2 / 100)
      else if welfare > 70 then max 0 (unrest - 1 / 100)
      else unrest)"

definition reward_region :: "region \<Rightarrow> region" where
  "reward_region r =
     r\<lparr>gdp_score := Some (gdp_of r), welfare_score := Some (welfare_of r),
       unrest_level := Some (new_unrest_of r)\<rparr>"

fun rewards_loop :: "string list \<Rightarrow> regions \<times> real list \<Rightarrow> exn + regions \<times> real list" where
  "rewards_loop [] st = Inr st"
| "rewards_loop (code # codes) (rd, gdp_scores) =
     (case rd code of
        None \<Rightarrow> Inl (KeyError code)
      | Some r \<Rightarrow> rewards_loop codes (rd(code \<mapsto> reward_region r), gdp_scores @ [gdp_of r]))"

record rewards =
  global_gdp :: real
  mean_gdp :: real
  gini_coefficient :: real
  global_reward :: real

definition cooperative_reward :: "real list \<Rightarrow> rewards option" where
  "cooperative_reward gdp_scores =
     (if gdp_scores = [] then None
      else
        let total_gdp = sum_list gdp_scores;
            mean = total_gdp / of_nat (length gdp_scores);
            deviation = sum_list (map (\<lambda>g. \<bar>g - mean\<bar>) gdp_scores);
            reward = total_gdp - REWARD_LAMBDA * deviation;
            gini = deviation / (total_gdp + 1 / 1000000)
        in Some \<lparr>global_gdp = py_round total_gdp 1, mean_gdp = py_round mean 1,
                  gini_coefficient = py_round gini 4, global_reward = py_round reward 1\<rparr>)"

definition step_rewards :: "regions \<Rightarrow> exn + regions \<times> rewards option" where
  "step_rewards rd =
     (case rewards_loop STATE_CODES (rd, []) of
        Inl e \<Rightarrow> Inl e
      | Inr (rd', gdp_scores) \<Rightarrow> Inr (rd', cooperative_reward gdp_scores))"

subsection \<open>Step 11: synchronisation with the store\<close>

text \<open>
  \<^verbatim>\<open>_step_firebase_sync\<close> is one \<^verbatim>\<open>try/except Exception\<close>: whether the store raises or
  not, nothing of the engine changes and nothing is raised.
\<close>

definition step_firebase_sync :: "firestore \<Rightarrow> unit" where
  "step_firebase_sync fs =
     (case fs_raises fs ''update_simulation_state'' of
        Some e \<Rightarrow> ()
      | None \<Rightarrow> (case fs_raises fs ''update_region'' of Some e \<Rightarrow> () | None \<Rightarrow> ()))"

section \<open>World orchestrator: the tick\<close>

text \<open>
  The collaborators as one tick sees them: the financial analysis of each state, the
  governors, the draws of the random source and the remote store.
\<close>

record env =
  env_analyze :: "string \<Rightarrow> region option \<Rightarrow> exn + report"
  env_governors :: "string \<rightharpoonup> governor"
  env_rng :: rng
  env_firestore :: firestore

record tick_events =
  te_tick :: int
  resource_updates :: "string \<rightharpoonup> ledger"
  trades_executed :: "trade list"
  treaties_enforced :: "enforcement list"
  climate_events :: "climate_event list"
  te_migrations :: "migration list"
  llm_actions :: "llm_action list"
  assembly :: "meeting_result option"
  te_rewards :: "rewards option"

record world =
  use_llm :: bool
  firebase_sync :: bool
  current_tick :: int
  w_climate_engine :: climate_engine
  w_treaty_manager :: treaty_manager
  w_parliament :: parliament
  regions_data :: regions
  state_reports :: "string \<rightharpoonup> report"
  tick_log :: "tick_events list"

text \<open>Sequencing of steps that may raise: the first exception ends the sequence.\<close>

definition and_then :: "exn + 'a \<Rightarrow> ('a \<Rightarrow> exn + 'b) \<Rightarrow> exn + 'b" where
  "and_then x f = (case x of Inl e \<Rightarrow> Inl e | Inr a \<Rightarrow> f a)"

text \<open>Step 9, with its guard: the assembly meets every fiftieth tick when the advisors are on.\<close>

definition step_assembly ::
  "world \<Rightarrow> env \<Rightarrow> (string \<rightharpoonup> report) \<Rightarrow> int \<Rightarrow> exn + parliament \<times> meeting_result option" where
  "step_assembly w ev reports t =
     (if t mod FEDERAL_ASSEMBLY_INTERVAL = 0 \<and> use_llm w
      then and_then (convene_assembly (w_parliament w) (env_governors ev) reports t)
             (\<lambda>(parl, meeting). Inr (parl, Some meeting))
      else Inr (w_parliament w, None))"

text \<open>
  \<^verbatim>\<open>tick_events["resource_updates"][code]\<close> is the very dict that step 1 stores as the
  resources of the region, and every later step writes into that dict in place. When the
  tick returns, the report therefore shows, for each of the ten states, the stocks as
  they are at the end of the tick.
\<close>

definition resource_updates_view :: "regions \<Rightarrow> (string \<rightharpoonup> ledger)" where
  "resource_updates_view rd =
     (\<lambda>code. if code \<in> set STATE_CODES then map_option resources (rd code) else None)"

text \<open>
  \<^verbatim>\<open>WorldEnvironment.tick\<close>: the eleven steps in their fixed order. A step that raises
  ends the tick with that exception; steps 6 and 7 cannot raise (\<open>Inr\<close>). The console
  summary is not modelled.
\<close>

definition tick :: "env \<Rightarrow> world \<Rightarrow> exn + world \<times> tick_events" where
  "tick ev w =
     (let t = current_tick w + 1;
          fs = (if firebase_sync w then Some (env_firestore ev) else None)
      in
      and_then (step_produce_consume (regions_data w)) (\<lambda>(rd1, ups).
      and_then (step_apply_policies rd1) (\<lambda>rd2.
      and_then (step_enforce_treaties (w_treaty_manager w) t rd2) (\<lambda>(rd3, tm, enforced).
      and_then (step_finops_analysis (env_analyze ev) rd3) (\<lambda>reports.
      and_then (step_climate (w_climate_engine w) t (env_rng ev) fs rd3) (\<lambda>(rd5, ce, cevents).
      and_then (Inr (if use_llm w
                     then step_governor_decisions (env_governors ev) reports ce t rd5
                     else (rd5, []))) (\<lambda>(rd6, actions).
      and_then (Inr (step_trade_matching reports rd6)) (\<lambda>(rd7, trades).
      and_then (step_migration rd7) (\<lambda>(rd8, moved).
      and_then (step_assembly w ev reports t) (\<lambda>(parl, meeting).
      and_then (step_rewards rd8) (\<lambda>(rd10, rw).
      let u = (if firebase_sync w then step_firebase_sync (env_firestore ev) else ());
          events = \<lparr>te_tick = t, resource_updates = resource_updates_view rd10,
                    trades_executed = trades,
                    treaties_enforced = enforced, climate_events = cevents,
                    te_migrations = moved, llm_actions = actions, assembly = meeting,
                    te_rewards = rw\<rparr>
      in Inr (w\<lparr>current_tick := t, w_climate_engine := ce, w_treaty_manager := tm,
                 w_parliament := parl, regions_data := rd10, state_reports := reports,
                 tick_log := tick_log w @ [events]\<rparr>,
              events))))))))))))"

text \<open>The total population of the ten states, a missing entry counting for nothing.\<close>

definition population_of :: "regions \<Rightarrow> string \<Rightarrow> int" where
  "population_of rd code = (case rd code of None \<Rightarrow> 0 | Some r \<Rightarrow> oget (population r) 0)"

definition total_population :: "regions \<Rightarrow> int" where
  "total_population rd = (\<Sum>code\<leftarrow>STATE_CODES. population_of rd code)"

text \<open>The invariant of one resources dict: none of the four stocks is negative.\<close>

definition nonneg_ledger :: "ledger \<Rightarrow> bool" where
  "nonneg_ledger res = (\<forall>name\<in>set RESOURCE_NAMES. 0 \<le> dget res name 0)"

text \<open>
  The welfare score of a state after running step 10 \<open>n\<close> times in a row on the same
  ledger, with nothing else in between (None when a run raised or the state is missing).
\<close>

fun rewards_runs :: "nat \<Rightarrow> regions \<Rightarrow> exn + regions" where
  "rewards_runs 0 rd = Inr rd"
| "rewards_runs (Suc n) rd =
     (case step_rewards rd of Inl e \<Rightarrow> Inl e | Inr (rd', rw) \<Rightarrow> rewards_runs n rd')"

definition welfare_after_rewards :: "nat \<Rightarrow> regions \<Rightarrow> string \<Rightarrow> real option" where
  "welfare_after_rewards n rd code =
     (case rewards_runs n rd of
        Inl e \<Rightarrow> None
      | Inr rd' \<Rightarrow> (case rd' code of None \<Rightarrow> None | Some r \<Rightarrow> welfare_score r))"

text \<open>Ten states that hold nothing: no food, no water, unrest at its default 0.\<close>

definition blank_regions :: regions where
  "blank_regions = (\<lambda>code. if code \<in> set STATE_CODES then Some blank_region else None)"

text \<open>A step that leaves the population entry of every region as it was.\<close>

definition same_population :: "regions \<Rightarrow> regions \<Rightarrow> bool" where
  "same_population rd rd' = (\<forall>c. map_option population (rd' c) = map_option population (rd c))"

text \<open>What a list of migration records adds to the population of one state.\<close>

definition migration_delta :: "migration list \<Rightarrow> string \<Rightarrow> int" where
  "migration_delta ms code =
     (\<Sum>m\<leftarrow>ms. (if mg_to m = code then migrants m else 0)
             - (if mg_from m = code then migrants m else 0))"

text \<open>
  Three states for the migration step: PB and TN are under the welfare threshold, MH has
  the highest welfare; the other states have no welfare score yet.
\<close>

definition race_regions :: regions where
  "race_regions =
     blank_regions
       (''PB'' \<mapsto> blank_region\<lparr>population := Some 1000, welfare_score := Some 30\<rparr>,
        ''MH'' \<mapsto> blank_region\<lparr>population := Some 100, welfare_score := Some 80\<rparr>,
        ''TN'' \<mapsto> blank_region\<lparr>population := Some 500, welfare_score := Some 20\<rparr>)"

text \<open>Collaborators that do not raise.\<close>

definition analysis_reliable :: "(string \<Rightarrow> region option \<Rightarrow> exn + report) \<Rightarrow> bool" where
  "analysis_reliable analyze = (\<forall>code r. \<exists>rep. analyze code r = Inr rep)"

definition climate_store_reliable :: "firestore \<Rightarrow> bool" where
  "climate_store_reliable fs =
     (fs_raises fs ''trigger_climate_event'' = None
      \<and> fs_raises fs ''deactivate_climate_event'' = None)"

text \<open>A result in which every breach names one of the two parties of its treaty.\<close>

definition wf_result :: "enforcement \<Rightarrow> bool" where
  "wf_result result =
     (\<forall>b\<in>set (breaches result). breacher b = res_from result \<or> breacher b = res_to result)"

definition assembly_reliable :: "(string \<rightharpoonup> governor) \<Rightarrow> bool" where
  "assembly_reliable governors =
     (\<forall>code gov. governors code = Some gov \<longrightarrow>
        (\<forall>rep reps. \<exists>p. propose_federal_policy gov rep reps = Inr p)
      \<and> (\<forall>rep p. \<exists>v. vote_on_policy gov rep p = Inr v))"

text \<open>A step that leaves the resources of every region as they were.\<close>

definition same_resources :: "regions \<Rightarrow> regions \<Rightarrow> bool" where
  "same_resources rd rd' = (\<forall>c. map_option resources (rd' c) = map_option resources (rd c))"

text \<open>
  A world at tick 0 with the ten empty states, no treaty, the advisors and the store
  switched on; and collaborators for one tick: a store that works, no governor, draws
  that trigger no climate event, and a financial analysis that fails for Tamil Nadu.
\<close>

definition quiet_store :: firestore where
  "quiet_store = \<lparr>fs_raises = (\<lambda>operation. None), fs_climate_events = Map.empty,
                   fs_regions = Map.empty\<rparr>"

definition start_world :: "regions \<Rightarrow> world" where
  "start_world rd =
     \<lparr>use_llm = True, firebase_sync = True, current_tick = 0,
      w_climate_engine = climate_engine_init,
      w_treaty_manager = \<lparr>active_treaties = [], expired_treaties = [], treaty_counter = 0\<rparr>,
      w_parliament = \<lparr>meeting_count = 0, passed_resolutions = [], meeting_history = []\<rparr>,
      regions_data = rd, state_reports = Map.empty, tick_log = []\<rparr>"

definition quiet_env :: env where
  "quiet_env = \<lparr>env_analyze = (\<lambda>code r. Inr empty_report), env_governors = Map.empty,
                 env_rng = quiet_rnd, env_firestore = quiet_store\<rparr>"

definition failing_analysis_env :: env where
  "failing_analysis_env =
     quiet_env\<lparr>env_analyze :=
       (\<lambda>code r. if code = ''TN'' then Inl (External ''analysis failed'') else Inr empty_report)\<rparr>"

definition failing_store :: firestore where
  "failing_store =
     quiet_store\<lparr>fs_raises := (\<lambda>operation. Some (External ''store unavailable''))\<rparr>"

definition failing_store_env :: env where
  "failing_store_env = quiet_env\<lparr>env_rng := heat_rnd, env_firestore := failing_store\<rparr>"

text \<open>
  Non-negative amounts: in the obligations of the active treaties, in what the
  governors propose, and in the requests of the trade recommendations.
\<close>

definition amounts_nonneg :: "(string \<times> int) list \<Rightarrow> bool" where
  "amounts_nonneg items = (\<forall>item\<in>set items. 0 \<le> snd item)"

definition treaties_nonneg :: "treaty_manager \<Rightarrow> bool" where
  "treaties_nonneg tm =
     (\<forall>t\<in>set (active_treaties tm).
        amounts_nonneg (per_tick_offer t) \<and> amounts_nonneg (per_tick_request t))"

definition proposals_nonneg :: "(string \<rightharpoonup> governor) \<Rightarrow> bool" where
  "proposals_nonneg governors =
     (\<forall>code gov rep partner sur p.
        governors code = Some gov \<longrightarrow> negotiate_trade gov rep partner sur = Inr p \<longrightarrow>
        amounts_nonneg (oget (offering p) []) \<and> amounts_nonneg (oget (requesting p) []))"

definition recommendations_nonneg :: "(string \<Rightarrow> region option \<Rightarrow> exn + report) \<Rightarrow> bool" where
  "recommendations_nonneg analyze =
     (\<forall>code r rep. analyze code r = Inr rep \<longrightarrow>
        (\<forall>rec\<in>set (trade_recommendations rep). 0 \<le> oget (request_amount rec) 0))"

text \<open>The invariant on the ten states: every stock of the four resources is at least zero.\<close>

definition nonneg_states :: "regions \<Rightarrow> bool" where
  "nonneg_states rd =
     (\<forall>code\<in>set STATE_CODES. \<forall>name\<in>set RESOURCE_NAMES. 0 \<le> stock rd code name)"

text \<open>
  Collaborators for one tick in which Punjab is short of food and asks for its governor,
  Maharashtra reports a food surplus, the analysis of Punjab recommends 2 energy for
  3 food, and the governor of Punjab answers every negotiation with the proposal \<open>p\<close>.
\<close>

definition trader :: "trade_proposal \<Rightarrow> governor" where
  "trader p =
     \<lparr>negotiate_trade = (\<lambda>rep partner sur. Inr p),
      propose_federal_policy = (\<lambda>rep reps. Inr example_proposal),
      vote_on_policy = (\<lambda>rep q. Inr \<lparr>vote = Some ''yes'', vote_reasoning = None\<rparr>)\<rparr>"

definition food_for_energy :: trade_rec where
  "food_for_energy =
     \<lparr>action = Some ''TRADE'', offer_resource = Some ''energy'', request_resource = Some ''food'',
      offer_amount = Some 2, request_amount = Some 3\<rparr>"

definition offer_analysis :: "string \<Rightarrow> region option \<Rightarrow> exn + report" where
  "offer_analysis code r =
     (if code = ''PB''
      then Inr (empty_report\<lparr>needs_governor := Some True, deficits := [(''food'', Some 1)],
                              trade_recommendations := [food_for_energy]\<rparr>)
      else if code = ''MH''
      then Inr (empty_report\<lparr>surpluses := [(''food'', Some 100)]\<rparr>)
      else Inr empty_report)"

definition offer_env :: "trade_proposal \<Rightarrow> env" where
  "offer_env p = quiet_env\<lparr>env_analyze := offer_analysis, env_governors := [''PB'' \<mapsto> trader p]\<rparr>"

text \<open>A proposal of 5 water for 10 food, and one of \<open>-5\<close> water for 10 food.\<close>

definition fair_offer :: trade_proposal where
  "fair_offer = \<lparr>offering = Some [(''water'', 5)], requesting = Some [(''food'', 10)]\<rparr>"

definition negative_offer :: trade_proposal where
  "negative_offer = \<lparr>offering = Some [(''water'', - 5)], requesting = Some [(''food'', 10)]\<rparr>"

text \<open>
  A ledger for these collaborators: Punjab holds 100 water and 50 energy, Maharashtra
  2 water and 200 food; nothing is produced or consumed.
\<close>

definition trade_regions :: regions where
  "trade_regions =
     blank_regions
       (''PB'' \<mapsto> blank_region\<lparr>resources := [''water'' \<mapsto> 100, ''energy'' \<mapsto> 50]\<rparr>,
        ''MH'' \<mapsto> blank_region\<lparr>resources := [''water'' \<mapsto> 2, ''food'' \<mapsto> 200]\<rparr>)"

text \<open>The stocks of the listed cells after one tick (None when the tick raised).\<close>

definition stocks_after_tick :: "env \<Rightarrow> world \<Rightarrow> (string \<times> string) list \<Rightarrow> int list option" where
  "stocks_after_tick ev w cells =
     (case tick ev w of
        Inl e \<Rightarrow> None
      | Inr (w', events) \<Rightarrow>
          Some (map (\<lambda>(code, name). stock (regions_data w') code name) cells))"



text \<open>
  An assembly of ten governors, each with a report. Every governor proposes an act
  under the name of its state, so the ballot holds the acts of PB, MH and TN. On the act
  of PB the first six states answer yes and the last four no; on the act of MH the
  first five answer YES and the last five NO; on the act of TN everybody answers
  abstain, which the assembly counts as YES.
\<close>

definition act_of :: "string \<Rightarrow> proposal" where
  "act_of code = \<lparr>policy_name = Some (''Act of '' @ code), proposer = Some code,
                   speech = None, proposal_duration_ticks = None\<rparr>"

definition answer :: "string \<Rightarrow> proposal \<Rightarrow> string" where
  "answer code p =
     (if proposer p = Some ''PB'' then (if code \<in> set (take 6 STATE_CODES) then ''yes'' else ''no'')
      else if proposer p = Some ''MH''
      then (if code \<in> set (take 5 STATE_CODES) then ''YES'' else ''NO'')
      else ''abstain'')"

definition assembly_governors :: "string \<rightharpoonup> governor" where
  "assembly_governors =
     (\<lambda>code. if code \<in> set STATE_CODES
             then Some \<lparr>negotiate_trade = (\<lambda>rep partner sur. Inl (External ''not asked'')),
                        propose_federal_policy = (\<lambda>rep reps. Inr (act_of code)),
                        vote_on_policy =
                          (\<lambda>rep p. Inr \<lparr>vote = Some (answer code p), vote_reasoning = None\<rparr>)\<rparr>
             else None)"

definition assembly_reports :: "string \<rightharpoonup> report" where
  "assembly_reports = (\<lambda>code. if code \<in> set STATE_CODES then Some empty_report else None)"

definition new_parliament :: parliament where
  "new_parliament = \<lparr>meeting_count = 0, passed_resolutions = [], meeting_history = []\<rparr>"

text \<open>What a meeting shows of one ballot item: the name, the two counts and the outcome.\<close>

definition item_view :: "vote_record \<Rightarrow> string \<times> nat \<times> nat \<times> bool" where
  "item_view r = (vr_policy_name r, yes_count r, no_count r, passed r)"

definition meeting_view ::
  "exn + parliament \<times> meeting_result \<Rightarrow> (string \<times> nat \<times> nat \<times> bool) list option" where
  "meeting_view outcome =
     (case outcome of
        Inl e \<Rightarrow> None
      | Inr (parl, meeting) \<Rightarrow> Some (map item_view (voting_results meeting)))"

text \<open>
  Two ledgers for step 10 that agree on resources and demographics and differ in the
  scores they hold: in the first no state has a score yet, in the second every state
  holds a GDP score of 99 and a welfare score of 1. Punjab has 5 million people, a
  workforce efficiency of 0.8 and an unrest level of 0.1.
\<close>

definition scored_regions :: regions where
  "scored_regions =
     blank_regions
       (''PB'' \<mapsto> blank_region
          \<lparr>resources := [''water'' \<mapsto> 1500, ''energy'' \<mapsto> 500, ''food'' \<mapsto> 2250,
                         ''tech'' \<mapsto> 1000],
           population := Some 5000000, workforce_efficiency := Some (8 / 10),
           unrest_level := Some (1 / 10)\<rparr>)"

definition stale_regions :: regions where
  "stale_regions =
     (\<lambda>code. map_option (\<lambda>r. r\<lparr>gdp_score := Some 99, welfare_score := Some 1\<rparr>)
               (scored_regions code))"

section \<open>Properties of step 1\<close>

lemma distinct_STATE_CODES: "distinct STATE_CODES"
  by (simp add: STATE_CODES_def)

lemma new_resources_apply:
  "new_resources r res =
     (if res \<in> set RESOURCE_NAMES
      then Some (max 0 (dget (resources r) res 0
                        + dget (resource_generation_rates r) res 0
                        - dget (resource_consumption_rates r) res 0))
      else None)"
  by (simp add: new_resources_def RESOURCE_NAMES_def)

lemma produce_consume_loop_total:
  "\<forall>c\<in>set codes. rd c \<noteq> None \<Longrightarrow> \<exists>rd' ups'. produce_consume_loop codes (rd, ups) = Inr (rd', ups')"
proof (induction codes arbitrary: rd ups)
  case Nil
  show ?case by simp
next
  case (Cons code codes)
  from Cons.prems obtain r where r: "rd code = Some r" by auto
  let ?rd = "rd(code \<mapsto> r\<lparr>resources := new_resources r\<rparr>)"
  from Cons.prems have "\<forall>c\<in>set codes. ?rd c \<noteq> None" by simp
  from Cons.IH [OF this] obtain rd' ups' where
    "produce_consume_loop codes (?rd, ups(code \<mapsto> new_resources r)) = Inr (rd', ups')"
    by blast
  with r show ?case by simp
qed

lemma produce_consume_loop_other:
  "produce_consume_loop codes (rd, ups) = Inr (rd', ups') \<Longrightarrow> c \<notin> set codes \<Longrightarrow> rd' c = rd c"
proof (induction codes arbitrary: rd ups)
  case Nil
  then show ?case by simp
next
  case (Cons code codes)
  then show ?case by (auto split: option.splits)
qed

lemma produce_consume_loop_at:
  "produce_consume_loop codes (rd, ups) = Inr (rd', ups') \<Longrightarrow> distinct codes \<Longrightarrow>
   c \<in> set codes \<Longrightarrow> rd c = Some r \<Longrightarrow> rd' c = Some (r\<lparr>resources := new_resources r\<rparr>)"
proof (induction codes arbitrary: rd ups)
  case Nil
  then show ?case by simp
next
  case (Cons code codes)
  show ?case
  proof (cases "c = code")
    case True
    with Cons.prems obtain
      run: "produce_consume_loop codes
              (rd(code \<mapsto> r\<lparr>resources := new_resources r\<rparr>), ups(code \<mapsto> new_resources r))
            = Inr (rd', ups')"
      and fresh: "code \<notin> set codes"
      by auto
    from produce_consume_loop_other [OF run fresh] True show ?thesis by simp
  next
    case False
    with Cons.prems obtain r0 where r0: "rd code = Some r0"
      by (auto split: option.splits)
    with Cons.prems False have
      run: "produce_consume_loop codes
              (rd(code \<mapsto> r0\<lparr>resources := new_resources r0\<rparr>), ups(code \<mapsto> new_resources r0))
            = Inr (rd', ups')"
      by simp
    from Cons.prems False have "distinct codes" "c \<in> set codes"
      "(rd(code \<mapsto> r0\<lparr>resources := new_resources r0\<rparr>)) c = Some r" by auto
    from Cons.IH [OF run this] show ?thesis .
  qed
qed


lemma step_produce_consume_present:
  assumes "\<forall>c\<in>set STATE_CODES. rd c \<noteq> None"
  shows "\<exists>rd' ups.
           step_produce_consume rd = Inr (rd', ups)
         \<and> (\<forall>c\<in>set STATE_CODES. \<forall>r. rd c = Some r \<longrightarrow>
               rd' c = Some (r\<lparr>resources := new_resources r\<rparr>))
         \<and> (\<forall>c. c \<notin> set STATE_CODES \<longrightarrow> rd' c = rd c)"
proof -
  from produce_consume_loop_total [OF assms] obtain rd' ups where
    run: "produce_consume_loop STATE_CODES (rd, Map.empty) = Inr (rd', ups)"
    by blast
  have "\<forall>c\<in>set STATE_CODES. \<forall>r. rd c = Some r \<longrightarrow>
          rd' c = Some (r\<lparr>resources := new_resources r\<rparr>)"
    using produce_consume_loop_at [OF run distinct_STATE_CODES] by blast
  moreover have "\<forall>c. c \<notin> set STATE_CODES \<longrightarrow> rd' c = rd c"
    using produce_consume_loop_other [OF run] by blast
  ultimately show ?thesis
    using run by (simp add: step_produce_consume_def)
qed

text \<open>
  With every region document present, \<open>n\<close> ticks of step 1 never raise, leave the rates
  alone and iterate \<open>w \<mapsto> max 0 (w + gen - con)\<close> on each of the four resources.
\<close>

lemma produce_consume_ticks_stock:
  assumes "\<forall>c\<in>set STATE_CODES. rd c \<noteq> None"
    and "code \<in> set STATE_CODES" and "res \<in> set RESOURCE_NAMES"
    and "rd code = Some r"
  shows "\<exists>rd' r'.
           produce_consume_ticks n rd = Inr rd' \<and> rd' code = Some r'
         \<and> resource_generation_rates r' = resource_generation_rates r
         \<and> resource_consumption_rates r' = resource_consumption_rates r
         \<and> dget (resources r') res 0 =
             ((\<lambda>w. max 0 (w + dget (resource_generation_rates r) res 0
                              - dget (resource_consumption_rates r) res 0)) ^^ n)
               (dget (resources r) res 0)"
  using assms
proof (induction n arbitrary: rd r)
  case 0
  then show ?case by simp
next
  case (Suc n)
  define f where
    "f = (\<lambda>w. max 0 (w + dget (resource_generation_rates r) res 0
                        - dget (resource_consumption_rates r) res 0))"
  from step_produce_consume_present [OF Suc.prems(1)] obtain rd1 ups where
    step: "step_produce_consume rd = Inr (rd1, ups)"
    and at: "\<forall>c\<in>set STATE_CODES. \<forall>r. rd c = Some r \<longrightarrow>
               rd1 c = Some (r\<lparr>resources := new_resources r\<rparr>)"
    by blast
  let ?r1 = "r\<lparr>resources := new_resources r\<rparr>"
  from at Suc.prems have r1: "rd1 code = Some ?r1" by blast
  from at Suc.prems(1) have present: "\<forall>c\<in>set STATE_CODES. rd1 c \<noteq> None" by fastforce
  from Suc.IH [OF present Suc.prems(2,3) r1] obtain rd' r' where
    run: "produce_consume_ticks n rd1 = Inr rd'" "rd' code = Some r'"
      "resource_generation_rates r' = resource_generation_rates r"
      "resource_consumption_rates r' = resource_consumption_rates r"
    and val: "dget (resources r') res 0 = (f ^^ n) (dget (resources ?r1) res 0)"
    unfolding f_def by auto
  have "dget (resources ?r1) res 0 = f (dget (resources r) res 0)"
    using Suc.prems(3) by (simp add: new_resources_apply dget_def f_def)
  with val have "dget (resources r') res 0 = (f ^^ Suc n) (dget (resources r) res 0)"
    by (simp only: funpow_Suc_right o_apply)
  with run step show ?case unfolding f_def by simp
qed

lemma water_after_eq:
  assumes "\<forall>c\<in>set STATE_CODES. rd c \<noteq> None"
    and "code \<in> set STATE_CODES" and "rd code = Some r"
    and "resources r ''water'' = Some w"
    and "resource_generation_rates r ''water'' = Some g"
    and "resource_consumption_rates r ''water'' = Some k"
  shows "water_after n rd code = Some (((\<lambda>w. max 0 (w + g - k)) ^^ n) w)"
proof -
  have "''water'' \<in> set RESOURCE_NAMES" by (simp add: RESOURCE_NAMES_def)
  from produce_consume_ticks_stock [OF assms(1,2) this assms(3), of n] assms(4-6)
  show ?thesis by (auto simp: water_after_def stock_def dget_def)
qed

lemma scenario_regions_present: "\<forall>c\<in>set STATE_CODES. scenario_regions c \<noteq> None"
  by (simp add: scenario_regions_def)

text \<open>
  Claim C2, as amended. Seed any two of the ten regions as A (water 1000, generation -50,
  consumption 100) and B (water 1000, generation 50, consumption 50), every region
  document being present. With only step 1 running, each tick stores
  \<open>max 0 (current + generation - consumption)\<close>: after one tick A holds 850 and B 1000;
  after ten ticks A holds 0 (clamped) and B still holds 1000, since B's generation and
  consumption cancel.
\<close>

theorem produce_consume_scenario:
  assumes "\<forall>c\<in>set STATE_CODES. rd c \<noteq> None"
    and "a \<in> set STATE_CODES" and "rd a = Some ra"
    and "resources ra ''water'' = Some 1000"
    and "resource_generation_rates ra ''water'' = Some (- 50)"
    and "resource_consumption_rates ra ''water'' = Some 100"
    and "b \<in> set STATE_CODES" and "rd b = Some rb"
    and "resources rb ''water'' = Some 1000"
    and "resource_generation_rates rb ''water'' = Some 50"
    and "resource_consumption_rates rb ''water'' = Some 50"
  shows "water_after 1 rd a = Some 850 \<and> water_after 1 rd b = Some 1000
       \<and> water_after 10 rd a = Some 0 \<and> water_after 10 rd b = Some 1000"
proof -
  have "water_after 1 rd a = Some 850"
    using water_after_eq [OF assms(1-6), of 1] by simp
  moreover have "water_after 1 rd b = Some 1000"
    using water_after_eq [OF assms(1) assms(7-11), of 1] by simp
  moreover have "water_after 10 rd a = Some 0"
    using water_after_eq [OF assms(1-6), of 10] by (simp add: eval_nat_numeral)
  moreover have "water_after 10 rd b = Some 1000"
    using water_after_eq [OF assms(1) assms(7-11), of 10] by (simp add: eval_nat_numeral)
  ultimately show ?thesis by simp
qed

theorem produce_consume_scenario_witness:
  "water_after 1 scenario_regions ''PB'' = Some 850
 \<and> water_after 1 scenario_regions ''MH'' = Some 1000
 \<and> water_after 10 scenario_regions ''PB'' = Some 0
 \<and> water_after 10 scenario_regions ''MH'' = Some 1000"
proof -
  have pb: "''PB'' \<in> set STATE_CODES" and mh: "''MH'' \<in> set STATE_CODES"
    by (simp_all add: STATE_CODES_def)
  have a: "scenario_regions ''PB'' = Some scenario_A"
    and b: "scenario_regions ''MH'' = Some scenario_B"
    by (simp_all add: scenario_regions_def)
  show ?thesis
    by (rule produce_consume_scenario [OF scenario_regions_present pb a _ _ _ mh b])
       (simp_all add: scenario_A_def scenario_B_def)
qed

text \<open>
  The scenario as the specification states it has B at 1500 after ten ticks; the code
  leaves B at 1000.
\<close>

theorem produce_consume_scenario_counterexample:
  "water_after 10 scenario_regions ''MH'' \<noteq> Some 1500"
proof -
  have mh: "''MH'' \<in> set STATE_CODES" by (simp add: STATE_CODES_def)
  have b: "scenario_regions ''MH'' = Some scenario_B" by (simp add: scenario_regions_def)
  have "water_after 10 scenario_regions ''MH'' = Some (((\<lambda>w. max 0 (w + 50 - 50)) ^^ 10) 1000)"
    by (rule water_after_eq [OF scenario_regions_present mh b]) (simp_all add: scenario_B_def)
  then show ?thesis by (simp add: eval_nat_numeral)
qed

section \<open>Properties of the treaty manager\<close>

lemma stock_breach_regions: "stock breach_regions ''PB'' ''water'' = 60"
  by (simp add: breach_regions_def stock_def dget_def)

text \<open>
  One leg, on its own. When the giver holds strictly less than the promised amount, the
  leg leaves the whole ledger as it was, adds no transfer, and appends one breach to the
  result, whose shortfall is the promised amount minus the available stock; the treaty's
  own log gains the matching entry. This holds with or without an update callback.
\<close>

lemma deliver_breach:
  assumes "stock rd giver resource < amount"
  shows "deliver update now giver receiver (resource, amount) (rd, blog, result) =
     (rd,
      blog @ [\<lparr>bl_tick = now, bl_breacher = giver, bl_resource = resource,
               bl_promised = amount, bl_available = stock rd giver resource\<rparr>],
      result\<lparr>breaches := breaches result @
         [\<lparr>breacher = giver, br_resource = resource,
           shortfall = amount - stock rd giver resource\<rparr>]\<rparr>)"
  using assms by (simp add: deliver_def Let_def)

lemma deliver_breach_example:
  "stock breach_regions ''PB'' ''water'' < 100
 \<and> deliver (Some update_region_resources_local) 7 ''PB'' ''MH'' (''water'', 100)
       (breach_regions, [],
        \<lparr>res_treaty_id = ''Treaty_001_PB_MH'', res_from = ''PB'', res_to = ''MH'',
          transfers = [], breaches = []\<rparr>)
   = (breach_regions,
      [\<lparr>bl_tick = 7, bl_breacher = ''PB'', bl_resource = ''water'',
        bl_promised = 100, bl_available = 60\<rparr>],
      \<lparr>res_treaty_id = ''Treaty_001_PB_MH'', res_from = ''PB'', res_to = ''MH'',
        transfers = [],
        breaches = [\<lparr>breacher = ''PB'', br_resource = ''water'', shortfall = 40\<rparr>]\<rparr>)"
proof -
  have short: "stock breach_regions ''PB'' ''water'' < 100"
    by (simp add: stock_breach_regions)
  from deliver_breach [OF short] short show ?thesis
    by (simp add: stock_breach_regions)
qed

text \<open>
  The example of the specification through \<open>enforce_single\<close>: one breach with shortfall
  40, no transfer, and the ledger of both regions untouched.
\<close>

lemma enforce_single_breach_example:
  "enforce_single breach_treaty breach_regions (Some update_region_resources_local) 7 =
     (breach_regions,
      breach_treaty\<lparr>treaty_breaches :=
        [\<lparr>bl_tick = 7, bl_breacher = ''PB'', bl_resource = ''water'',
          bl_promised = 100, bl_available = 60\<rparr>]\<rparr>,
      \<lparr>res_treaty_id = ''Treaty_001_PB_MH'', res_from = ''PB'', res_to = ''MH'',
        transfers = [],
        breaches = [\<lparr>breacher = ''PB'', br_resource = ''water'', shortfall = 40\<rparr>]\<rparr>)"
  by (simp add: enforce_single_def breach_treaty_def deliver_def stock_breach_regions)









lemma penalise_dom:
  "\<forall>b\<in>set bs. breacher b \<in> dom adj \<Longrightarrow>
   \<exists>adj'. penalise bs adj = Inr adj' \<and>
     (\<forall>c. adj' c = map_option (\<lambda>v. v - TREATY_BREACH_TRUST_PENALTY
                 * int (length (filter (\<lambda>b. breacher b = c) bs))) (adj c))"
proof (induction bs arbitrary: adj)
  case Nil
  then show ?case by (simp add: option.map_ident)
next
  case (Cons b bs)
  from Cons.prems obtain v where v: "adj (breacher b) = Some v" by auto
  let ?adj = "adj(breacher b \<mapsto> v - TREATY_BREACH_TRUST_PENALTY)"
  from Cons.prems have "\<forall>b\<in>set bs. breacher b \<in> dom ?adj" by auto
  from Cons.IH [OF this] obtain adj' where
    run: "penalise bs ?adj = Inr adj'"
    and val: "\<And>c. adj' c = map_option (\<lambda>v. v - TREATY_BREACH_TRUST_PENALTY
                 * int (length (filter (\<lambda>b. breacher b = c) bs))) (?adj c)"
    by blast
  have "\<forall>c. adj' c = map_option (\<lambda>v. v - TREATY_BREACH_TRUST_PENALTY
                 * int (length (filter (\<lambda>x. breacher x = c) (b # bs)))) (adj c)"
    using v by (auto simp: val algebra_simps)
  with run v show ?case by (simp add: add_at_def)
qed

lemma penalise_Inr_dom:
  "penalise bs adj = Inr adj' \<Longrightarrow> \<forall>b\<in>set bs. breacher b \<in> dom adj"
proof (induction bs arbitrary: adj)
  case Nil
  then show ?case by simp
next
  case (Cons b bs)
  then show ?case
    by (fastforce simp: add_at_def split: option.splits sum.splits if_splits)
qed

lemma trust_adjustments_loop_sum:
  assumes "\<forall>result\<in>set results. \<forall>b\<in>set (breaches result).
             breacher b = res_from result \<or> breacher b = res_to result"
  shows "\<exists>adj'. trust_adjustments_loop results adj = Inr adj' \<and>
     (\<forall>c. adj' c = (if c \<in> parties results \<union> dom adj
                     then Some (dget adj c 0 + (\<Sum>result\<leftarrow>results. contribution result c))
                     else None))"
  using assms
proof (induction results arbitrary: adj)
  case Nil
  then show ?case by (auto simp: parties_def dget_def)
next
  case (Cons result results)
  let ?adj1 = "setdefault (setdefault adj (res_from result) 0) (res_to result) 0"
  have adj1: "\<And>c. ?adj1 c = (if c = res_from result \<or> c = res_to result then Some (dget adj c 0) else adj c)"
    by (auto simp: setdefault_def dget_def split: option.splits)
  from Cons.prems have wf: "\<forall>result\<in>set results. \<forall>b\<in>set (breaches result).
             breacher b = res_from result \<or> breacher b = res_to result" by simp
  show ?case
  proof (cases "breaches result = []")
    case True
    define adj2 where
      "adj2 = ?adj1(res_from result \<mapsto> dget adj (res_from result) 0 + TREATY_HONOR_TRUST_BONUS)"
    define adj3 where
      "adj3 = adj2(res_to result \<mapsto> dget adj2 (res_to result) 0 + TREATY_HONOR_TRUST_BONUS)"
    have a1: "add_at (res_from result) TREATY_HONOR_TRUST_BONUS ?adj1 = Inr adj2"
      by (simp add: add_at_def adj1 adj2_def)
    have "adj2 (res_to result) = Some (dget adj2 (res_to result) 0)"
      by (simp add: adj2_def adj1 dget_def)
    then have a2: "add_at (res_to result) TREATY_HONOR_TRUST_BONUS adj2 = Inr adj3"
      by (simp add: add_at_def adj3_def)
    have step: "trust_adjustments_loop (result # results) adj = trust_adjustments_loop results adj3"
      using True a1 a2 by (simp add: Let_def)
    have adj3: "\<And>c. adj3 c = map_option (\<lambda>v. v + contribution result c) (?adj1 c)"
      using True by (auto simp: adj3_def adj2_def adj1 dget_def contribution_def option.map_ident)
    from Cons.IH [OF wf, of adj3] obtain adj' where
      run: "trust_adjustments_loop results adj3 = Inr adj'"
      and val: "\<And>c. adj' c = (if c \<in> parties results \<union> dom adj3
                     then Some (dget adj3 c 0 + (\<Sum>result\<leftarrow>results. contribution result c))
                     else None)" by blast
    have dom3: "dom adj3 = {res_from result, res_to result} \<union> dom adj"
      by (auto simp: adj3 adj1 split: if_splits)
    have get3: "\<And>c. dget adj3 c 0 = dget adj c 0 + contribution result c"
      using True by (auto simp: adj3 adj1 dget_def contribution_def split: option.splits)
    have "\<forall>c. adj' c = (if c \<in> parties (result # results) \<union> dom adj
                     then Some (dget adj c 0 + (\<Sum>result\<leftarrow>result # results. contribution result c))
                     else None)"
      using get3 by (auto simp: val dom3 parties_def)
    with run step show ?thesis by simp
  next
    case False
    from Cons.prems have "\<forall>b\<in>set (breaches result). breacher b \<in> dom ?adj1"
      by (auto simp: adj1 dom_def)
    from penalise_dom [OF this] obtain adj2 where
      pen: "penalise (breaches result) ?adj1 = Inr adj2"
      and val2: "\<And>c. adj2 c = map_option (\<lambda>v. v - TREATY_BREACH_TRUST_PENALTY
                 * int (length (filter (\<lambda>b. breacher b = c) (breaches result)))) (?adj1 c)"
      by blast
    have step: "trust_adjustments_loop (result # results) adj = trust_adjustments_loop results adj2"
      using False pen by (simp add: Let_def)
    from Cons.IH [OF wf, of adj2] obtain adj' where
      run: "trust_adjustments_loop results adj2 = Inr adj'"
      and val: "\<And>c. adj' c = (if c \<in> parties results \<union> dom adj2
                     then Some (dget adj2 c 0 + (\<Sum>result\<leftarrow>results. contribution result c))
                     else None)" by blast
    have dom2: "dom adj2 = {res_from result, res_to result} \<union> dom adj"
      by (auto simp: val2 adj1 split: if_splits)
    have none: "\<And>c. c \<noteq> res_from result \<Longrightarrow> c \<noteq> res_to result \<Longrightarrow>
                  filter (\<lambda>b. breacher b = c) (breaches result) = []"
      using Cons.prems by (auto simp: filter_empty_conv)
    have get2: "\<And>c. dget adj2 c 0 = dget adj c 0 + contribution result c"
      using False none by (auto simp: val2 adj1 dget_def contribution_def split: option.splits)
    have "\<forall>c. adj' c = (if c \<in> parties (result # results) \<union> dom adj
                     then Some (dget adj c 0 + (\<Sum>result\<leftarrow>result # results. contribution result c))
                     else None)"
      using get2 by (auto simp: val dom2 parties_def)
    with run step show ?thesis by simp
  qed
qed


text \<open>
  Claim C4. For a list of enforcement results in which every breach names one of the
  two parties of its treaty (as \<open>enforce_single\<close> produces them), the computation
  returns, and the adjustment of each party is the sum of the contributions of the
  results: a result with no breach contributes the positive bonus to its from-party and
  to its to-party; a result with a breach contributes a penalty to the regions that
  breached in it, and to no region a bonus.
\<close>

theorem trust_adjustments_contributions:
  assumes "\<forall>result\<in>set results. \<forall>b\<in>set (breaches result).
             breacher b = res_from result \<or> breacher b = res_to result"
  shows "\<exists>adj. calculate_trust_adjustments results = Inr adj
     \<and> (\<forall>c. adj c = (if c \<in> parties results
                      then Some (\<Sum>result\<leftarrow>results. contribution result c) else None))
     \<and> (\<forall>result\<in>set results.
           (breaches result = [] \<longrightarrow>
              0 < contribution result (res_from result)
            \<and> 0 < contribution result (res_to result))
         \<and> (breaches result \<noteq> [] \<longrightarrow>
              (\<forall>c. contribution result c \<le> 0
                 \<and> (contribution result c < 0 \<longleftrightarrow> c \<in> breacher ` set (breaches result)))))"
proof -
  from trust_adjustments_loop_sum [OF assms, of Map.empty] obtain adj where
    run: "calculate_trust_adjustments results = Inr adj"
    and val: "\<forall>c. adj c = (if c \<in> parties results
                      then Some (\<Sum>result\<leftarrow>results. contribution result c) else None)"
    by (auto simp: calculate_trust_adjustments_def dget_def)
  have sign: "\<forall>result\<in>set results.
           (breaches result = [] \<longrightarrow>
              0 < contribution result (res_from result)
            \<and> 0 < contribution result (res_to result))
         \<and> (breaches result \<noteq> [] \<longrightarrow>
              (\<forall>c. contribution result c \<le> 0
                 \<and> (contribution result c < 0 \<longleftrightarrow> c \<in> breacher ` set (breaches result))))"
    by (auto simp: contribution_def TREATY_HONOR_TRUST_BONUS_def TREATY_BREACH_TRUST_PENALTY_def
                   filter_empty_conv)
  from run val sign show ?thesis by blast
qed

theorem trust_adjustments_contributions_witness:
  "\<exists>adj. calculate_trust_adjustments trust_example = Inr adj
        \<and> adj ''PB'' = Some 2 \<and> adj ''MH'' = Some 2
        \<and> adj ''TN'' = Some (- 15) \<and> adj ''KA'' = Some 0 \<and> adj ''GJ'' = None"
proof -
  have wf: "\<forall>result\<in>set trust_example. \<forall>b\<in>set (breaches result).
      breacher b = res_from result \<or> breacher b = res_to result"
    by (simp add: trust_example_def)
  from trust_adjustments_contributions [OF wf] obtain adj where
    run: "calculate_trust_adjustments trust_example = Inr adj"
    and val: "\<forall>c. adj c = (if c \<in> parties trust_example
                      then Some (\<Sum>result\<leftarrow>trust_example. contribution result c) else None)"
    by blast
  have "adj ''PB'' = Some 2" "adj ''MH'' = Some 2" "adj ''TN'' = Some (- 15)"
    "adj ''KA'' = Some 0" "adj ''GJ'' = None"
    by (simp_all add: val parties_def trust_example_def contribution_def
          TREATY_HONOR_TRUST_BONUS_def TREATY_BREACH_TRUST_PENALTY_def)
  with run show ?thesis by blast
qed

section \<open>Properties of the climate engine\<close>


lemma dict_set_map_keys:
  "map (fst \<circ> (\<lambda>(k', v'). if k' = k then (k', v) else (k', v'))) d = map fst d"
  by (induction d) auto

lemma map_of_overwrite:
  "map_of (map (\<lambda>(k', v'). if k' = k then (k', v) else (k', v')) d) x
     = (if x = k \<and> k \<in> fst ` set d then Some v else map_of d x)"
proof (induction d)
  case Nil
  show ?case by simp
next
  case (Cons a d)
  obtain k0 v0 where a: "a = (k0, v0)" by (cases a)
  show ?case
  proof (cases "k0 = k")
    case True
    with a Cons.IH show ?thesis by simp
  next
    case False
    with a Cons.IH show ?thesis by (cases "x = k0") simp_all
  qed
qed

lemma map_of_dict_set:
  "map_of (dict_set d k v) x = (if x = k then Some v else map_of d x)"
proof (cases "k \<in> fst ` set d")
  case True
  then show ?thesis by (simp add: dict_set_def map_of_overwrite)
next
  case False
  then have "map_of d k = None" by (simp add: map_of_eq_None_iff)
  with False show ?thesis
    by (simp add: dict_set_def map_add_def split: option.splits)
qed

lemma keys_dict_set: "fst ` set (dict_set d k v) = insert k (fst ` set d)"
proof -
  have "fst ` set (dict_set d k v) = set (map fst (dict_set d k v))" by simp
  also have "\<dots> = insert k (fst ` set d)"
    by (cases "k \<in> fst ` set d") (auto simp: dict_set_def dict_set_map_keys)
  finally show ?thesis .
qed

lemma distinct_dict_set: "distinct (map fst d) \<Longrightarrow> distinct (map fst (dict_set d k v))"
  by (auto simp: dict_set_def dict_set_map_keys)

lemma map_of_dict_del: "map_of (dict_del d k) k' = (if k' = k then None else map_of d k')"
  by (induction d) (auto simp: dict_del_def)

lemma map_of_decrement:
  "map_of (map (\<lambda>(event_id, ticks_left). (event_id, ticks_left - 1)) d) k
     = map_option (\<lambda>n. n - 1) (map_of d k)"
  by (induction d) auto

lemma decrement_keys:
  "map (fst \<circ> (\<lambda>(event_id, ticks_left). (event_id, ticks_left - 1))) d = map fst d"
  for d :: "('k \<times> int) list"
  by (induction d) auto

lemma distinct_dict_del: "distinct (map fst d) \<Longrightarrow> distinct (map fst (dict_del d k))"
  by (simp add: dict_del_def distinct_map_filter)

lemma expire_loop_keys:
  "expire_loop fs ids (active, events) = Inr (active', events') \<Longrightarrow>
   distinct (map fst active) \<Longrightarrow> distinct (map fst active')"
proof (induction ids arbitrary: active events)
  case Nil
  then show ?case by simp
next
  case (Cons event_id ids)
  from Cons.prems have
    "expire_loop fs ids (dict_del active event_id, events @ [EXPIRED event_id])
       = Inr (active', events')"
    by (auto split: sum.splits option.splits)
  from Cons.IH [OF this] Cons.prems(2) show ?case
    by (simp add: distinct_dict_del)
qed

lemma expire_loop_result:
  "expire_loop fs ids (active, events) = Inr (active', events') \<Longrightarrow>
     events' = events @ map EXPIRED ids
   \<and> (\<forall>k. map_of active' k = (if k \<in> set ids then None else map_of active k))"
proof (induction ids arbitrary: active events)
  case Nil
  then show ?case by simp
next
  case (Cons event_id ids)
  from Cons.prems have
    "expire_loop fs ids (dict_del active event_id, events @ [EXPIRED event_id])
       = Inr (active', events')"
    by (auto split: sum.splits option.splits)
  from Cons.IH [OF this] show ?case
    by (auto simp: map_of_dict_del)
qed


lemma trigger_event_result:
  "trigger_event ce e fs = Inr (ce', r) \<Longrightarrow>
     active_events ce' = dict_set (active_events ce) e (dget (map_of durations) e 5)
   \<and> last_event_tick ce' = last_event_tick ce
   \<and> (\<exists>imp. r = Some \<lparr>trg_event_id = e, trg_target_region = dget (map_of targets) e [],
                         trg_duration = dget (map_of durations) e 5, trg_impact = imp\<rparr>)"
  by (auto simp: trigger_event_def Let_def split: sum.splits option.splits)

lemma climate_new_events_cases:
  assumes "climate_new_events ce t rnd fs = Inr (ce1, events)"
  shows "(events = [] \<and> ce1 = ce)
       \<or> (\<exists>e imp. e \<notin> fst ` set (active_events ce)
              \<and> select_event ce (rand_choices rnd) = Some e
              \<and> events = [TRIGGERED \<lparr>trg_event_id = e,
                              trg_target_region = dget (map_of targets) e [],
                              trg_duration = dget (map_of durations) e 5,
                              trg_impact = imp\<rparr>]
              \<and> active_events ce1 = dict_set (active_events ce) e (dget (map_of durations) e 5))"
proof (cases "CLIMATE_MIN_INTERVAL \<le> t - last_event_tick ce
              \<and> rand_random rnd < CLIMATE_EVENT_PROBABILITY")
  case False
  with assms show ?thesis by (auto simp: climate_new_events_def Let_def)
next
  case gate: True
  show ?thesis
  proof (cases "select_event ce (rand_choices rnd)")
    case None
    with assms gate show ?thesis by (simp add: climate_new_events_def Let_def)
  next
    case (Some e)
    show ?thesis
    proof (cases "e \<noteq> [] \<and> e \<notin> fst ` set (active_events ce)")
      case False
      with assms gate Some show ?thesis by (auto simp: climate_new_events_def Let_def)
    next
      case True
      with assms gate Some obtain ce' r where
        trg: "trigger_event ce e fs = Inr (ce', r)"
        by (auto simp: climate_new_events_def Let_def split: sum.splits)
      from trigger_event_result [OF trg] obtain imp where
        act: "active_events ce' = dict_set (active_events ce) e (dget (map_of durations) e 5)"
        and r: "r = Some \<lparr>trg_event_id = e, trg_target_region = dget (map_of targets) e [],
                         trg_duration = dget (map_of durations) e 5, trg_impact = imp\<rparr>"
        by blast
      from assms gate Some True trg r have
        "ce1 = ce'\<lparr>last_event_tick := t\<rparr>" "events = [TRIGGERED \<lparr>trg_event_id = e,
             trg_target_region = dget (map_of targets) e [],
             trg_duration = dget (map_of durations) e 5, trg_impact = imp\<rparr>]"
        by (simp_all add: climate_new_events_def Let_def)
      with act True Some show ?thesis by auto
    qed
  qed
qed


lemma length_accumulate: "length (accumulate acc ws) = length ws"
  by (induction ws arbitrary: acc) auto

lemma choices_in_population:
  assumes "pop \<noteq> []" and "length weights = length pop"
  shows "choices pop weights u \<in> set pop"
proof -
  let ?cum = "accumulate 0 weights"
  have "length (takeWhile (\<lambda>c. c \<le> u * last ?cum) (butlast ?cum)) \<le> length (butlast ?cum)"
    by (rule length_takeWhile_le)
  also have "\<dots> = length pop - 1"
    using assms by (simp add: length_accumulate)
  also have "\<dots> < length pop" using assms by (cases pop) auto
  finally show ?thesis by (simp add: choices_def Let_def)
qed

lemma select_event_available:
  assumes "select_event ce u = Some e"
  shows "e \<in> fst ` set EVENT_WEIGHTS \<and> e \<notin> fst ` set (active_events ce)"
proof -
  let ?av = "filter (\<lambda>(e, w). e \<notin> fst ` set (active_events ce)) EVENT_WEIGHTS"
  from assms have ne: "?av \<noteq> []"
    by (auto simp: select_event_def Let_def split: if_splits)
  with assms have e: "e = choices (map fst ?av)
      (map (\<lambda>(e, w). w / sum_list (map snd ?av)) ?av) u"
    by (simp add: select_event_def Let_def)
  have "choices (map fst ?av) (map (\<lambda>(e, w). w / sum_list (map snd ?av)) ?av) u
          \<in> set (map fst ?av)"
    by (rule choices_in_population) (use ne in simp_all)
  with e have "e \<in> fst ` set ?av" by simp
  then show ?thesis by (auto simp: image_iff) force
qed

lemma catalog_duration:
  "e \<in> fst ` set EVENT_WEIGHTS \<Longrightarrow> map_of durations e = Some (dget (map_of durations) e 5)
     \<and> 5 \<le> dget (map_of durations) e 5"
  by (auto simp: EVENT_WEIGHTS_def durations_def dget_def)

lemma climate_tick_split:
  assumes "climate_tick ce t rnd fs = Inr (ce', events)"
  shows "\<exists>ce1 events1.
           climate_new_events ce t rnd fs = Inr (ce1, events1)
         \<and> last_event_tick ce' = last_event_tick ce1
         \<and> events = events1 @ map EXPIRED
              (map fst (filter (\<lambda>(event_id, ticks_left). ticks_left \<le> 0)
                 (map (\<lambda>(event_id, ticks_left). (event_id, ticks_left - 1)) (active_events ce1))))
         \<and> (\<forall>k. map_of (active_events ce') k =
                (if k \<in> fst ` set (filter (\<lambda>(event_id, ticks_left). ticks_left \<le> 0)
                      (map (\<lambda>(event_id, ticks_left). (event_id, ticks_left - 1)) (active_events ce1)))
                 then None else map_option (\<lambda>n. n - 1) (map_of (active_events ce1) k)))
         \<and> (distinct (map fst (active_events ce1)) \<longrightarrow> distinct (map fst (active_events ce')))"
proof -
  from assms obtain ce1 events1 where
    new: "climate_new_events ce t rnd fs = Inr (ce1, events1)"
    by (auto simp: climate_tick_def split: sum.splits)
  let ?dec = "map (\<lambda>(event_id, ticks_left). (event_id, ticks_left - 1)) (active_events ce1)"
  let ?exp = "map fst (filter (\<lambda>(event_id, ticks_left). ticks_left \<le> 0) ?dec)"
  from assms new obtain active where
    loop: "expire_loop fs ?exp (?dec, events1) = Inr (active, events)"
    and ce': "ce' = ce1\<lparr>active_events := active\<rparr>"
    by (auto simp: climate_tick_def Let_def split: sum.splits)
  from expire_loop_result [OF loop] have
    ev: "events = events1 @ map EXPIRED ?exp"
    and look: "\<forall>k. map_of active k = (if k \<in> set ?exp then None else map_of ?dec k)"
    by blast+
  have keys: "distinct (map fst (active_events ce1)) \<longrightarrow> distinct (map fst active)"
    using expire_loop_keys [OF loop] by (simp add: decrement_keys)
  from new ev look keys ce' show ?thesis
    by (auto simp: map_of_decrement)
qed


lemma expired_filter:
  "filter (\<lambda>(event_id, ticks_left). ticks_left \<le> 0)
     (map (\<lambda>(event_id, ticks_left). (event_id, ticks_left - 1)) d)
   = map (\<lambda>(event_id, ticks_left). (event_id, ticks_left - 1))
       (filter (\<lambda>(event_id, ticks_left). ticks_left \<le> (1::int)) d)"
  for d :: "('k \<times> int) list"
  by (induction d) auto

lemma expired_keys:
  "map fst (filter (\<lambda>(event_id, ticks_left). ticks_left \<le> 0)
     (map (\<lambda>(event_id, ticks_left). (event_id, ticks_left - 1)) d))
   = map fst (filter (\<lambda>(event_id, ticks_left). ticks_left \<le> (1::int)) d)"
  for d :: "('k \<times> int) list"
  by (simp only: expired_filter map_map decrement_keys)

lemma expired_key_iff:
  fixes d :: "('k \<times> int) list"
  assumes "distinct (map fst d)"
  shows "k \<in> fst ` set (filter (\<lambda>(event_id, ticks_left). ticks_left \<le> 0)
              (map (\<lambda>(event_id, ticks_left). (event_id, ticks_left - 1)) d))
         \<longleftrightarrow> (\<exists>n. map_of d k = Some n \<and> n \<le> 1)"
proof -
  have "fst ` set (filter (\<lambda>(event_id, ticks_left). ticks_left \<le> 0)
              (map (\<lambda>(event_id, ticks_left). (event_id, ticks_left - 1)) d))
        = set (map fst (filter (\<lambda>(event_id, ticks_left). ticks_left \<le> 0)
              (map (\<lambda>(event_id, ticks_left). (event_id, ticks_left - 1)) d)))"
    by (simp only: set_map)
  also have "\<dots> = fst ` set (filter (\<lambda>(event_id, ticks_left). ticks_left \<le> (1::int)) d)"
    by (simp only: expired_keys set_map)
  finally have "k \<in> fst ` set (filter (\<lambda>(event_id, ticks_left). ticks_left \<le> 0)
              (map (\<lambda>(event_id, ticks_left). (event_id, ticks_left - 1)) d))
        \<longleftrightarrow> (\<exists>n. (k, n) \<in> set d \<and> n \<le> 1)"
    by (auto simp: image_iff)
  with assms show ?thesis by simp
qed

lemma climate_new_events_keeps:
  assumes "climate_new_events ce t rnd fs = Inr (ce1, events1)"
    and "distinct (map fst (active_events ce))"
    and "map_of (active_events ce) e = Some n"
  shows "distinct (map fst (active_events ce1))"
    and "map_of (active_events ce1) e = Some n"
    and "\<forall>info. TRIGGERED info \<in> set events1 \<longrightarrow> trg_event_id info \<noteq> e"
    and "EXPIRED e \<notin> set events1"
proof -
  from assms(3) have key: "e \<in> fst ` set (active_events ce)"
    by (metis map_of_eq_None_iff option.distinct(1))
  from climate_new_events_cases [OF assms(1)]
  have "distinct (map fst (active_events ce1))
      \<and> map_of (active_events ce1) e = Some n
      \<and> (\<forall>info. TRIGGERED info \<in> set events1 \<longrightarrow> trg_event_id info \<noteq> e)
      \<and> EXPIRED e \<notin> set events1"
  proof (elim disjE exE conjE)
    assume "events1 = []" "ce1 = ce"
    with assms(2,3) show ?thesis by simp
  next
    fix e' imp
    assume fresh: "e' \<notin> fst ` set (active_events ce)"
      and ev: "events1 = [TRIGGERED \<lparr>trg_event_id = e',
                              trg_target_region = dget (map_of targets) e' [],
                              trg_duration = dget (map_of durations) e' 5,
                              trg_impact = imp\<rparr>]"
      and act: "active_events ce1 = dict_set (active_events ce) e' (dget (map_of durations) e' 5)"
    from fresh key have ne: "e \<noteq> e'" by blast
    from ne assms(2,3) show ?thesis
      by (simp add: ev act distinct_dict_set map_of_dict_set)
  qed
  then show "distinct (map fst (active_events ce1))"
    and "map_of (active_events ce1) e = Some n"
    and "\<forall>info. TRIGGERED info \<in> set events1 \<longrightarrow> trg_event_id info \<noteq> e"
    and "EXPIRED e \<notin> set events1"
    by blast+
qed

lemma climate_tick_active_step:
  assumes "distinct (map fst (active_events ce))"
    and "map_of (active_events ce) e = Some n"
    and "climate_tick ce t rnd fs = Inr (ce', events)"
  shows "distinct (map fst (active_events ce'))"
    and "\<forall>info. TRIGGERED info \<in> set events \<longrightarrow> trg_event_id info \<noteq> e"
    and "1 < n \<Longrightarrow> map_of (active_events ce') e = Some (n - 1) \<and> EXPIRED e \<notin> set events"
    and "n \<le> 1 \<Longrightarrow> map_of (active_events ce') e = None \<and> EXPIRED e \<in> set events"
proof -
  from climate_tick_split [OF assms(3)] obtain ce1 events1 where
    new: "climate_new_events ce t rnd fs = Inr (ce1, events1)"
    and ev: "events = events1 @ map EXPIRED
              (map fst (filter (\<lambda>(event_id, ticks_left). ticks_left \<le> 0)
                 (map (\<lambda>(event_id, ticks_left). (event_id, ticks_left - 1)) (active_events ce1))))"
    and look: "\<forall>k. map_of (active_events ce') k =
                (if k \<in> fst ` set (filter (\<lambda>(event_id, ticks_left). ticks_left \<le> 0)
                      (map (\<lambda>(event_id, ticks_left). (event_id, ticks_left - 1)) (active_events ce1)))
                 then None else map_option (\<lambda>n. n - 1) (map_of (active_events ce1) k))"
    and dist: "distinct (map fst (active_events ce1)) \<longrightarrow> distinct (map fst (active_events ce'))"
    by blast
  note keep = climate_new_events_keeps [OF new assms(1,2)]
  from keep(1) dist show "distinct (map fst (active_events ce'))" by simp
  from keep(3) ev show "\<forall>info. TRIGGERED info \<in> set events \<longrightarrow> trg_event_id info \<noteq> e"
    by auto
  have exp: "e \<in> fst ` set (filter (\<lambda>(event_id, ticks_left). ticks_left \<le> 0)
                      (map (\<lambda>(event_id, ticks_left). (event_id, ticks_left - 1)) (active_events ce1)))
             \<longleftrightarrow> n \<le> 1"
    using expired_key_iff [OF keep(1), of e] keep(2) by simp
  have mem: "EXPIRED e \<in> set events \<longleftrightarrow> n \<le> 1"
    using keep(4) exp unfolding ev by (auto simp: image_iff)
  show "1 < n \<Longrightarrow> map_of (active_events ce') e = Some (n - 1) \<and> EXPIRED e \<notin> set events"
    using look exp mem keep(2) by simp
  show "n \<le> 1 \<Longrightarrow> map_of (active_events ce') e = None \<and> EXPIRED e \<in> set events"
    using look exp mem by simp
qed

lemma climate_tick_triggered:
  assumes "distinct (map fst (active_events ce))"
    and "climate_tick ce t rnd fs = Inr (ce', events)"
    and "TRIGGERED info \<in> set events"
  shows "trg_event_id info \<in> fst ` set EVENT_WEIGHTS"
    and "trg_event_id info \<notin> fst ` set (active_events ce)"
    and "map_of durations (trg_event_id info) = Some (trg_duration info)"
    and "map_of (active_events ce') (trg_event_id info) = Some (trg_duration info - 1)"
    and "EXPIRED (trg_event_id info) \<notin> set events"
    and "distinct (map fst (active_events ce'))"
proof -
  from climate_tick_split [OF assms(2)] obtain ce1 events1 where
    new: "climate_new_events ce t rnd fs = Inr (ce1, events1)"
    and ev: "events = events1 @ map EXPIRED
              (map fst (filter (\<lambda>(event_id, ticks_left). ticks_left \<le> 0)
                 (map (\<lambda>(event_id, ticks_left). (event_id, ticks_left - 1)) (active_events ce1))))"
    and look: "\<forall>k. map_of (active_events ce') k =
                (if k \<in> fst ` set (filter (\<lambda>(event_id, ticks_left). ticks_left \<le> 0)
                      (map (\<lambda>(event_id, ticks_left). (event_id, ticks_left - 1)) (active_events ce1)))
                 then None else map_option (\<lambda>n. n - 1) (map_of (active_events ce1) k))"
    and dist: "distinct (map fst (active_events ce1)) \<longrightarrow> distinct (map fst (active_events ce'))"
    by blast
  from assms(3) ev have in1: "TRIGGERED info \<in> set events1" by auto
  let ?e = "trg_event_id info"
  from in1 have ne: "events1 \<noteq> []" by auto
  from climate_new_events_cases [OF new] ne obtain e' imp where
    fresh': "e' \<notin> fst ` set (active_events ce)"
    and sel': "select_event ce (rand_choices rnd) = Some e'"
    and ev1': "events1 = [TRIGGERED \<lparr>trg_event_id = e',
                              trg_target_region = dget (map_of targets) e' [],
                              trg_duration = dget (map_of durations) e' 5,
                              trg_impact = imp\<rparr>]"
    and act': "active_events ce1 = dict_set (active_events ce) e' (dget (map_of durations) e' 5)"
    by blast
  from in1 ev1' have info: "info = \<lparr>trg_event_id = e',
                              trg_target_region = dget (map_of targets) e' [],
                              trg_duration = dget (map_of durations) e' 5,
                              trg_impact = imp\<rparr>" by simp
  then have e': "e' = ?e" and dur: "trg_duration info = dget (map_of durations) ?e 5"
    by simp_all
  from fresh' sel' act' e' have
    fresh: "?e \<notin> fst ` set (active_events ce)"
    and sel: "select_event ce (rand_choices rnd) = Some ?e"
    and act: "active_events ce1 = dict_set (active_events ce) ?e (dget (map_of durations) ?e 5)"
    by simp_all
  from ev1' info have ev1: "events1 = [TRIGGERED info]" by simp
  from select_event_available [OF sel] have cat: "?e \<in> fst ` set EVENT_WEIGHTS" by simp
  from catalog_duration [OF cat] dur have
    d1: "map_of durations ?e = Some (trg_duration info)" and d5: "5 \<le> trg_duration info"
    by simp_all
  have dist1: "distinct (map fst (active_events ce1))"
    using assms(1) by (simp add: act distinct_dict_set)
  have at1: "map_of (active_events ce1) ?e = Some (trg_duration info)"
    by (simp add: act map_of_dict_set dur)
  have exp: "?e \<notin> fst ` set (filter (\<lambda>(event_id, ticks_left). ticks_left \<le> 0)
                      (map (\<lambda>(event_id, ticks_left). (event_id, ticks_left - 1)) (active_events ce1)))"
    using expired_key_iff [OF dist1, of ?e] at1 d5 by simp
  show "?e \<in> fst ` set EVENT_WEIGHTS" by (rule cat)
  show "?e \<notin> fst ` set (active_events ce)" by (rule fresh)
  show "map_of durations ?e = Some (trg_duration info)" by (rule d1)
  show "map_of (active_events ce') ?e = Some (trg_duration info - 1)"
    using look exp at1 by simp
  show "EXPIRED ?e \<notin> set events"
    using exp unfolding ev ev1 by (auto simp: image_iff)
  show "distinct (map fst (active_events ce'))" using dist dist1 by simp
qed


lemma climate_run_length:
  "climate_run ce t inputs = Inr (ce', eventss) \<Longrightarrow> length eventss = length inputs"
proof (induction inputs arbitrary: ce t eventss)
  case Nil
  then show ?case by simp
next
  case (Cons input inputs)
  obtain rnd fs where input: "input = (rnd, fs)" by (cases input)
  from Cons.prems input obtain ce1 events rest where
    "climate_run ce1 (t + 1) inputs = Inr (ce', rest)" "eventss = events # rest"
    by (auto split: sum.splits)
  with Cons.IH show ?case by auto
qed

lemma climate_run_countdown:
  assumes "distinct (map fst (active_events ce))"
    and "map_of (active_events ce) e = Some n"
    and "climate_run ce t inputs = Inr (ce', eventss)"
  shows "(int (length inputs) < n \<longrightarrow>
            map_of (active_events ce') e = Some (n - int (length inputs))
          \<and> (\<forall>events\<in>set eventss. EXPIRED e \<notin> set events))
       \<and> (inputs \<noteq> [] \<and> int (length inputs) = n \<longrightarrow>
            map_of (active_events ce') e = None
          \<and> EXPIRED e \<in> set (last eventss)
          \<and> (\<forall>events\<in>set (butlast eventss). EXPIRED e \<notin> set events))"
  using assms
proof (induction inputs arbitrary: ce t n eventss)
  case Nil
  then show ?case by auto
next
  case (Cons input inputs)
  obtain rnd fs where input: "input = (rnd, fs)" by (cases input)
  from Cons.prems(3) input obtain ce1 events rest where
    tick: "climate_tick ce t rnd fs = Inr (ce1, events)"
    and run: "climate_run ce1 (t + 1) inputs = Inr (ce', rest)"
    and all: "eventss = events # rest"
    by (auto split: sum.splits)
  note step = climate_tick_active_step [OF Cons.prems(1,2) tick]
  from climate_run_length [OF run] have len: "length rest = length inputs" .
  show ?case
  proof (cases "1 < n")
    case True
    with step have at1: "map_of (active_events ce1) e = Some (n - 1)"
      and no: "EXPIRED e \<notin> set events" by simp_all
    from Cons.IH [OF step(1) at1 run] have
      ih1: "int (length inputs) < n - 1 \<longrightarrow>
            map_of (active_events ce') e = Some (n - 1 - int (length inputs))
          \<and> (\<forall>events\<in>set rest. EXPIRED e \<notin> set events)"
      and ih2: "inputs \<noteq> [] \<and> int (length inputs) = n - 1 \<longrightarrow>
            map_of (active_events ce') e = None
          \<and> EXPIRED e \<in> set (last rest)
          \<and> (\<forall>events\<in>set (butlast rest). EXPIRED e \<notin> set events)"
      by blast+
    have rest_ne: "int (length inputs) = n - 1 \<Longrightarrow> rest \<noteq> []"
      using True len by auto
    show ?thesis
    proof (rule conjI; rule impI)
      assume lt: "int (length (input # inputs)) < n"
      with ih1 have "map_of (active_events ce') e = Some (n - 1 - int (length inputs))"
        and "\<forall>events\<in>set rest. EXPIRED e \<notin> set events" by simp_all
      with no all show "map_of (active_events ce') e = Some (n - int (length (input # inputs)))
          \<and> (\<forall>events\<in>set eventss. EXPIRED e \<notin> set events)"
        by (simp add: algebra_simps)
    next
      assume "input # inputs \<noteq> [] \<and> int (length (input # inputs)) = n"
      then have eq': "int (length inputs) = n - 1" by simp
      with True have "inputs \<noteq> []" by auto
      with eq' ih2 have a: "map_of (active_events ce') e = None"
        and b: "EXPIRED e \<in> set (last rest)"
        and c: "\<forall>events\<in>set (butlast rest). EXPIRED e \<notin> set events" by simp_all
      from rest_ne [OF eq'] all b c no a
      show "map_of (active_events ce') e = None
          \<and> EXPIRED e \<in> set (last eventss)
          \<and> (\<forall>events\<in>set (butlast eventss). EXPIRED e \<notin> set events)"
        by simp
    qed
  next
    case False
    then have n1: "n \<le> 1" by simp
    with step have gone: "map_of (active_events ce1) e = None"
      and ex: "EXPIRED e \<in> set events" by simp_all
    show ?thesis
    proof (rule conjI; rule impI)
      assume "int (length (input # inputs)) < n"
      with n1 show "map_of (active_events ce') e = Some (n - int (length (input # inputs)))
          \<and> (\<forall>events\<in>set eventss. EXPIRED e \<notin> set events)" by simp
    next
      assume "input # inputs \<noteq> [] \<and> int (length (input # inputs)) = n"
      then have "1 + int (length inputs) = n" by simp
      with n1 have "int (length inputs) \<le> 0" by linarith
      then have "inputs = []" by simp
      with run all have "ce' = ce1" "eventss = [events]" by simp_all
      with gone ex show "map_of (active_events ce') e = None
          \<and> EXPIRED e \<in> set (last eventss)
          \<and> (\<forall>events\<in>set (butlast eventss). EXPIRED e \<notin> set events)"
        by simp
    qed
  qed
qed

lemma climate_run_prefix:
  "climate_run ce t inputs = Inr (ce', eventss) \<Longrightarrow>
   \<exists>cek evk. climate_run ce t (take k inputs) = Inr (cek, evk)"
proof (induction inputs arbitrary: ce t eventss k)
  case Nil
  then show ?case by simp
next
  case (Cons input inputs)
  obtain rnd fs where input: "input = (rnd, fs)" by (cases input)
  from Cons.prems input obtain ce1 events rest where
    tick: "climate_tick ce t rnd fs = Inr (ce1, events)"
    and run: "climate_run ce1 (t + 1) inputs = Inr (ce', rest)"
    by (auto split: sum.splits)
  show ?case
  proof (cases k)
    case 0
    then show ?thesis by simp
  next
    case (Suc j)
    from Cons.IH [OF run, of j] obtain cek evk where
      "climate_run ce1 (t + 1) (take j inputs) = Inr (cek, evk)" by blast
    with tick input Suc show ?thesis by simp
  qed
qed

text \<open>
  Claim C10. Take an engine whose \<open>active_events\<close> dict has distinct keys, a tick of it
  that returns and reports an event as TRIGGERED, and the \<open>duration - 1\<close> ticks that follow
  it, all of which return. Then the duration registered is the catalog's; right after
  the triggering tick the event has \<open>duration - 1\<close> ticks left (it was decremented in the
  tick that triggered it, and not expired in it); after \<open>k < duration - 1\<close> further ticks
  it is still active with \<open>duration - 1 - k\<close> ticks left and no EXPIRED was reported for
  it; and the tick that is \<open>duration - 1\<close> ticks after the trigger reports it EXPIRED and
  removes it. Counting the triggering tick it is active for exactly \<open>duration\<close> ticks.
\<close>

theorem climate_event_lifetime:
  assumes "distinct (map fst (active_events ce))"
    and "climate_tick ce t rnd fs = Inr (ce1, events)"
    and "TRIGGERED info \<in> set events"
    and "climate_run ce1 (t + 1) inputs = Inr (ce2, eventss)"
    and "int (length inputs) = trg_duration info - 1"
  shows "map_of durations (trg_event_id info) = Some (trg_duration info)
       \<and> map_of (active_events ce1) (trg_event_id info) = Some (trg_duration info - 1)
       \<and> EXPIRED (trg_event_id info) \<notin> set events
       \<and> (\<forall>k<length inputs. \<exists>cek evk.
              climate_run ce1 (t + 1) (take k inputs) = Inr (cek, evk)
            \<and> map_of (active_events cek) (trg_event_id info)
                = Some (trg_duration info - 1 - int k)
            \<and> (\<forall>events\<in>set evk. EXPIRED (trg_event_id info) \<notin> set events))
       \<and> EXPIRED (trg_event_id info) \<in> set (last eventss)
       \<and> map_of (active_events ce2) (trg_event_id info) = None"
proof -
  let ?e = "trg_event_id info"
  let ?n = "trg_duration info - 1"
  note trg = climate_tick_triggered [OF assms(1,2,3)]
  have "\<forall>k<length inputs. \<exists>cek evk.
              climate_run ce1 (t + 1) (take k inputs) = Inr (cek, evk)
            \<and> map_of (active_events cek) ?e = Some (?n - int k)
            \<and> (\<forall>events\<in>set evk. EXPIRED ?e \<notin> set events)"
  proof (intro allI impI)
    fix k assume k: "k < length inputs"
    from climate_run_prefix [OF assms(4), of k] obtain cek evk where
      run: "climate_run ce1 (t + 1) (take k inputs) = Inr (cek, evk)" by blast
    from k assms(5) have "int (length (take k inputs)) < ?n" by simp
    with climate_run_countdown [OF trg(6) trg(4) run] k
    have "map_of (active_events cek) ?e = Some (?n - int k)
        \<and> (\<forall>events\<in>set evk. EXPIRED ?e \<notin> set events)"
      by (simp add: min_def)
    with run show "\<exists>cek evk.
              climate_run ce1 (t + 1) (take k inputs) = Inr (cek, evk)
            \<and> map_of (active_events cek) ?e = Some (?n - int k)
            \<and> (\<forall>events\<in>set evk. EXPIRED ?e \<notin> set events)" by blast
  qed
  moreover from catalog_duration [OF trg(1)] trg(3) have "5 \<le> trg_duration info"
    by simp
  with assms(5) have "inputs \<noteq> []" by auto
  with climate_run_countdown [OF trg(6) trg(4) assms(4)] assms(5)
  have "EXPIRED ?e \<in> set (last eventss)" "map_of (active_events ce2) ?e = None"
    by simp_all
  ultimately show ?thesis using trg(3,4,5) by blast
qed


theorem climate_event_lifetime_witness:
  "distinct (map fst (active_events climate_engine_init))
 \<and> climate_tick climate_engine_init 1 heat_rnd None = Inr (heat_engine 4, [TRIGGERED heat_info])
 \<and> TRIGGERED heat_info \<in> set [TRIGGERED heat_info]
 \<and> climate_run (heat_engine 4) (1 + 1) (replicate 4 (quiet_rnd, None))
      = Inr (heat_engine_final, [[], [], [], [EXPIRED ''Heatwave_UP'']])
 \<and> map_of (active_events (heat_engine 4)) ''Heatwave_UP'' = Some 4
 \<and> EXPIRED ''Heatwave_UP'' \<in> set (last [[], [], [], [EXPIRED ''Heatwave_UP'']])
 \<and> map_of (active_events heat_engine_final) ''Heatwave_UP'' = None"
proof -
  have h1: "distinct (map fst (active_events climate_engine_init))"
    by (simp add: climate_engine_init_def)
  have sel: "select_event climate_engine_init (rand_choices heat_rnd) = Some ''Heatwave_UP''"
    by (simp add: select_event_def climate_engine_init_def EVENT_WEIGHTS_def choices_def Let_def
          heat_rnd_def)
  have gate: "CLIMATE_MIN_INTERVAL \<le> 1 - last_event_tick climate_engine_init"
    "rand_random heat_rnd < CLIMATE_EVENT_PROBABILITY"
    "active_events climate_engine_init = []"
    by (simp_all add: climate_engine_init_def heat_rnd_def CLIMATE_MIN_INTERVAL_def
          CLIMATE_EVENT_PROBABILITY_def)
  have trg: "trigger_event climate_engine_init ''Heatwave_UP'' None
               = Inr (climate_engine_init\<lparr>active_events := [(''Heatwave_UP'', 5)]\<rparr>, Some heat_info)"
    by (simp add: trigger_event_def Let_def durations_def targets_def dget_def dict_set_def
          heat_info_def gate(3))
  have new: "climate_new_events climate_engine_init 1 heat_rnd None
               = Inr (heat_engine 5, [TRIGGERED heat_info])"
    unfolding climate_new_events_def Let_def
    by (simp add: gate sel trg) (simp add: climate_engine_init_def heat_engine_def)
  have h2: "climate_tick climate_engine_init 1 heat_rnd None
              = Inr (heat_engine 4, [TRIGGERED heat_info])"
    by (simp add: climate_tick_def new heat_engine_def)
  have h3: "TRIGGERED heat_info \<in> set [TRIGGERED heat_info]" by simp
  have quiet: "\<And>n t. climate_new_events (heat_engine n) t quiet_rnd None = Inr (heat_engine n, [])"
    by (simp add: climate_new_events_def quiet_rnd_def CLIMATE_EVENT_PROBABILITY_def)
  have down: "\<And>n t. 1 < n \<Longrightarrow> climate_tick (heat_engine n) t quiet_rnd None
                         = Inr (heat_engine (n - 1), [])"
    by (simp add: climate_tick_def quiet) (simp add: heat_engine_def)
  have out: "\<And>t. climate_tick (heat_engine 1) t quiet_rnd None
                = Inr (heat_engine_final, [EXPIRED ''Heatwave_UP''])"
    by (simp add: climate_tick_def quiet) (simp add: heat_engine_def heat_engine_final_def dict_del_def)
  have h4: "climate_run (heat_engine 4) (1 + 1) (replicate 4 (quiet_rnd, None))
              = Inr (heat_engine_final, [[], [], [], [EXPIRED ''Heatwave_UP'']])"
    by (simp add: eval_nat_numeral down out)
  have h5: "int (length (replicate 4 (quiet_rnd, None))) = trg_duration heat_info - 1"
    by (simp add: heat_info_def)
  from climate_event_lifetime [OF h1 h2 h3 h4 h5] h1 h2 h3 h4 show ?thesis
    by (simp add: heat_info_def)
qed

text \<open>
  When the store is absent or its two climate operations do not raise, a tick of the
  climate engine returns.
\<close>

lemma expire_loop_total:
  assumes "case fs of None \<Rightarrow> True | Some f \<Rightarrow> fs_raises f ''deactivate_climate_event'' = None"
  shows "\<exists>r. expire_loop fs ids st = Inr r"
proof (induction ids arbitrary: st)
  case Nil
  show ?case by (cases st) simp
next
  case (Cons event_id ids)
  obtain active events where st: "st = (active, events)" by (cases st)
  from Cons.IH [of "(dict_del active event_id, events @ [EXPIRED event_id])"] assms st
  show ?case by (auto simp: deactivate_climate_event_def split: option.splits)
qed

lemma climate_tick_total:
  assumes "case fs of None \<Rightarrow> True | Some f \<Rightarrow> climate_store_reliable f"
  shows "\<exists>r. climate_tick ce t rnd fs = Inr r"
proof -
  have trg: "\<And>e. \<exists>r. trigger_event ce e fs = Inr r"
    using assms
    by (auto simp: trigger_event_def trigger_climate_event_def climate_store_reliable_def Let_def
             split: option.splits)
  have "\<exists>r. climate_new_events ce t rnd fs = Inr r"
  proof (cases "select_event ce (rand_choices rnd)")
    case None
    then show ?thesis by (simp add: climate_new_events_def Let_def)
  next
    case (Some e)
    from trg [of e] obtain ce' r where "trigger_event ce e fs = Inr (ce', r)" by force
    with Some show ?thesis
      by (cases r) (simp_all add: climate_new_events_def Let_def)
  qed
  then obtain ce1 events where new: "climate_new_events ce t rnd fs = Inr (ce1, events)"
    by force
  have "case fs of None \<Rightarrow> True | Some f \<Rightarrow> fs_raises f ''deactivate_climate_event'' = None"
    using assms by (simp add: climate_store_reliable_def split: option.splits)
  from expire_loop_total [OF this] obtain active events' where
    "expire_loop fs
       (map fst (filter (\<lambda>(event_id, ticks_left). ticks_left \<le> 0)
          (map (\<lambda>(event_id, ticks_left). (event_id, ticks_left - 1)) (active_events ce1))))
       (map (\<lambda>(event_id, ticks_left). (event_id, ticks_left - 1)) (active_events ce1), events)
     = Inr (active, events')"
    by force
  with new show ?thesis
    by (simp add: climate_tick_def Let_def)
qed

text \<open>
  Claim C6 against the code. \<open>force_trigger\<close> has no guard: on an event that is already
  active it returns a result (it does not reject) and overwrites the entry, resetting
  the remaining duration to the catalog duration. Here an active drought with 3 ticks
  left is back at 10.
\<close>

theorem force_trigger_active_overwrites:
  "force_trigger \<lparr>last_event_tick = 1, active_events = [(''Drought_RJ'', 3)]\<rparr> ''Drought_RJ'' None
     = Inr (\<lparr>last_event_tick = 1, active_events = [(''Drought_RJ'', 10)]\<rparr>,
            Some \<lparr>trg_event_id = ''Drought_RJ'', trg_target_region = ''RJ'',
                  trg_duration = 10, trg_impact = None\<rparr>)"
  by (simp add: force_trigger_def trigger_event_def Let_def durations_def targets_def
        dget_def dict_set_def)

text \<open>
  In general a forced trigger that returns leaves the event active with the catalog
  duration, whatever it had before; the keys of \<open>active_events\<close> stay distinct (the part of
  the claim that holds: no duplicate entry).
\<close>

lemma force_trigger_registers:
  assumes "force_trigger ce e fs = Inr (ce', r)"
  shows "map_of (active_events ce') e = Some (dget (map_of durations) e 5)"
    and "r \<noteq> None"
    and "distinct (map fst (active_events ce)) \<Longrightarrow> distinct (map fst (active_events ce'))"
    and "fst ` set (active_events ce') = insert e (fst ` set (active_events ce))"
  using trigger_event_result [of ce e fs ce' r] assms
  by (auto simp: force_trigger_def map_of_dict_set distinct_dict_set keys_dict_set)

section \<open>Properties of the assembly\<close>

lemma upper_examples: "upper ''yes'' = ''YES''" "upper ''No'' = ''NO''" "upper ''abstain'' = ''ABSTAIN''"
  by (simp_all add: upper_def upper_char_def)

lemma majority_arith:
  fixes y t :: nat
  assumes "0 < t"
  shows "(6 / 10 \<le> (of_nat y / of_nat t :: real)) \<longleftrightarrow> 3 * t \<le> 5 * y"
proof -
  from assms have pos: "0 < (of_nat t :: real)" by simp
  have "(6 / 10 \<le> (of_nat y / of_nat t :: real)) \<longleftrightarrow> (6 / 10 * of_nat t \<le> (of_nat y :: real))"
    by (rule pos_le_divide_eq [OF pos])
  also have "\<dots> \<longleftrightarrow> (of_nat (3 * t) \<le> (of_nat (5 * y) :: real))"
    unfolding of_nat_mult by auto
  also have "\<dots> \<longleftrightarrow> 3 * t \<le> 5 * y" by (simp only: of_nat_le_iff)
  finally show ?thesis .
qed

text \<open>
  The tally of one item marks it passed exactly when the ratio of yes votes to all votes
  cast reaches the majority fraction 0.6, that is, when at least one vote was cast and
  \<open>3 * (yes + no) \<le> 5 * yes\<close>. Six yes against four no passes, five against five fails.
\<close>

lemma tally_majority:
  "(passed (tally p (yes, no)) \<longleftrightarrow>
      (of_nat (length yes) / of_nat (length yes + length no) :: real) \<ge> FEDERAL_ASSEMBLY_MAJORITY)
 \<and> (passed (tally p (yes, no)) \<longleftrightarrow>
      0 < length yes + length no \<and> 3 * (length yes + length no) \<le> 5 * length yes)
 \<and> passed (tally p (take 6 STATE_CODES, drop 6 STATE_CODES))
 \<and> \<not> passed (tally p (take 5 STATE_CODES, drop 5 STATE_CODES))"
proof -
  let ?y = "length yes" and ?t = "length yes + length no"
  have p: "passed (tally p (yes, no)) \<longleftrightarrow>
             (if ?t > 0 then (of_nat ?y / of_nat ?t :: real) else 0) \<ge> FEDERAL_ASSEMBLY_MAJORITY"
    by (simp add: tally_def Let_def)
  have a: "passed (tally p (yes, no)) \<longleftrightarrow>
      (of_nat ?y / of_nat ?t :: real) \<ge> FEDERAL_ASSEMBLY_MAJORITY"
    unfolding p by (cases "?t > 0") (simp_all add: FEDERAL_ASSEMBLY_MAJORITY_def)
  have b: "passed (tally p (yes, no)) \<longleftrightarrow> 0 < ?t \<and> 3 * ?t \<le> 5 * ?y"
  proof (cases "?t > 0")
    case True
    from majority_arith [OF True, of ?y] True show ?thesis
      unfolding p by (simp only: FEDERAL_ASSEMBLY_MAJORITY_def if_True simp_thms)
  next
    case False
    then show ?thesis unfolding p by (simp add: FEDERAL_ASSEMBLY_MAJORITY_def)
  qed
  have c: "passed (tally p (take 6 STATE_CODES, drop 6 STATE_CODES))"
    by (simp add: tally_def Let_def STATE_CODES_def FEDERAL_ASSEMBLY_MAJORITY_def)
  have d: "\<not> passed (tally p (take 5 STATE_CODES, drop 5 STATE_CODES))"
    by (simp add: tally_def Let_def STATE_CODES_def FEDERAL_ASSEMBLY_MAJORITY_def)
  from a b c d show ?thesis by blast
qed

lemma tally_fields:
  "yes_votes (tally p (yes, no)) = yes" "no_votes (tally p (yes, no)) = no"
  "yes_count (tally p (yes, no)) = length yes" "no_count (tally p (yes, no)) = length no"
  "vr_proposal (tally p (yes, no)) = p"
  by (simp_all add: tally_def Let_def)

lemma vote_on_proposals_records:
  "vote_on_proposals governors reports now ps (resolutions, names, records)
     = Inr (resolutions', names', records') \<Longrightarrow>
   \<exists>new. records' = records @ new
        \<and> names' = names @ map vr_policy_name (filter passed new)
        \<and> resolutions' = resolutions @
             map (\<lambda>r. \<lparr>rs_name = vr_policy_name r, rs_proposal = vr_proposal r,
                         tick_passed = now\<rparr>) (filter passed new)
        \<and> map vr_proposal new = ps
        \<and> (\<forall>r\<in>set new.
              collect_votes governors reports (vr_proposal r) STATE_CODES ([], [])
                = Inr (yes_votes r, no_votes r)
            \<and> r = tally (vr_proposal r) (yes_votes r, no_votes r))"
proof (induction ps arbitrary: resolutions names records)
  case Nil
  then show ?case by simp
next
  case (Cons p ps)
  from Cons.prems obtain yes no where
    votes: "collect_votes governors reports p STATE_CODES ([], []) = Inr (yes, no)"
    by (auto split: sum.splits)
  let ?r = "tally p (yes, no)"
  let ?res = "if passed ?r then resolutions @ [\<lparr>rs_name = vr_policy_name ?r, rs_proposal = p,
                                    tick_passed = now\<rparr>] else resolutions"
  let ?names = "if passed ?r then names @ [vr_policy_name ?r] else names"
  from Cons.prems votes have
    "vote_on_proposals governors reports now ps (?res, ?names, records @ [?r])
       = Inr (resolutions', names', records')"
    by (simp add: Let_def split: if_splits)
  from Cons.IH [OF this] obtain new where
    new: "records' = (records @ [?r]) @ new"
      "names' = ?names @ map vr_policy_name (filter passed new)"
      "resolutions' = ?res @
             map (\<lambda>r. \<lparr>rs_name = vr_policy_name r, rs_proposal = vr_proposal r,
                         tick_passed = now\<rparr>) (filter passed new)"
      "map vr_proposal new = ps"
      "\<forall>r\<in>set new.
              collect_votes governors reports (vr_proposal r) STATE_CODES ([], [])
                = Inr (yes_votes r, no_votes r)
            \<and> r = tally (vr_proposal r) (yes_votes r, no_votes r)"
    by blast
  have here: "collect_votes governors reports (vr_proposal ?r) STATE_CODES ([], [])
                = Inr (yes_votes ?r, no_votes ?r)
            \<and> ?r = tally (vr_proposal ?r) (yes_votes ?r, no_votes ?r)"
    using votes by (simp add: tally_fields)
  show ?case
  proof (intro exI [of _ "?r # new"] conjI)
    show "records' = records @ ?r # new" using new(1) by simp
    show "names' = names @ map vr_policy_name (filter passed (?r # new))"
      using new(2) by simp
    show "resolutions' = resolutions @
             map (\<lambda>r. \<lparr>rs_name = vr_policy_name r, rs_proposal = vr_proposal r,
                         tick_passed = now\<rparr>) (filter passed (?r # new))"
      using new(3) by (simp add: tally_fields)
    show "map vr_proposal (?r # new) = p # ps" using new(4) by (simp add: tally_fields)
    show "\<forall>r\<in>set (?r # new).
              collect_votes governors reports (vr_proposal r) STATE_CODES ([], [])
                = Inr (yes_votes r, no_votes r)
            \<and> r = tally (vr_proposal r) (yes_votes r, no_votes r)"
      using here new(5) by simp
  qed
qed

text \<open>
  Claim C8. In every meeting that \<open>convene_assembly\<close> returns, the vote records are those
  of the ballot (the first three proposals collected), in order. Each record holds the
  votes that the governors cast on its proposal and their counts, and it is marked
  passed exactly when yes / (yes + no) reaches the majority fraction 0.6 of the
  configuration, that is, when at least one vote was cast and
  \<open>3 * (yes + no) \<le> 5 * yes\<close> (with no vote cast the code sets the ratio to 0 and the item
  fails). The names passed in the meeting, and the resolutions added to the
  parliament, are those of the records marked passed, in order.
\<close>

theorem assembly_majority:
  assumes "convene_assembly parl governors reports now = Inr (parl', meeting)"
  shows "(\<exists>proposals. collect_proposals governors reports STATE_CODES = Inr proposals
            \<and> map vr_proposal (voting_results meeting) = take 3 proposals)
       \<and> (\<forall>r\<in>set (voting_results meeting).
             collect_votes governors reports (vr_proposal r) STATE_CODES ([], [])
               = Inr (yes_votes r, no_votes r)
           \<and> yes_count r = length (yes_votes r) \<and> no_count r = length (no_votes r)
           \<and> (passed r \<longleftrightarrow>
                (of_nat (yes_count r) / of_nat (yes_count r + no_count r) :: real)
                  \<ge> FEDERAL_ASSEMBLY_MAJORITY)
           \<and> (passed r \<longleftrightarrow>
                0 < yes_count r + no_count r
              \<and> 3 * (yes_count r + no_count r) \<le> 5 * yes_count r))
       \<and> mr_passed_resolutions meeting
           = map vr_policy_name (filter passed (voting_results meeting))
       \<and> passed_resolutions parl'
           = passed_resolutions parl @
             map (\<lambda>r. \<lparr>rs_name = vr_policy_name r, rs_proposal = vr_proposal r,
                         tick_passed = now\<rparr>) (filter passed (voting_results meeting))"
proof -
  from assms obtain proposals resolutions names records where
    ps: "collect_proposals governors reports STATE_CODES = Inr proposals"
    and run: "vote_on_proposals governors reports now (take 3 proposals)
                (passed_resolutions parl, [], []) = Inr (resolutions, names, records)"
    and out: "voting_results meeting = records" "mr_passed_resolutions meeting = names"
      "passed_resolutions parl' = resolutions"
    by (auto simp: convene_assembly_def Let_def split: sum.splits)
  from vote_on_proposals_records [OF run] have
    names: "names = map vr_policy_name (filter passed records)"
    and resolutions: "resolutions = passed_resolutions parl @
             map (\<lambda>r. \<lparr>rs_name = vr_policy_name r, rs_proposal = vr_proposal r,
                         tick_passed = now\<rparr>) (filter passed records)"
    and ballot: "map vr_proposal records = take 3 proposals"
    and each: "\<forall>r\<in>set records.
              collect_votes governors reports (vr_proposal r) STATE_CODES ([], [])
                = Inr (yes_votes r, no_votes r)
            \<and> r = tally (vr_proposal r) (yes_votes r, no_votes r)"
    by auto
  from ps ballot have first: "\<exists>proposals.
      collect_proposals governors reports STATE_CODES = Inr proposals
    \<and> map vr_proposal records = take 3 proposals" by blast
  have every: "\<forall>r\<in>set records.
             collect_votes governors reports (vr_proposal r) STATE_CODES ([], [])
               = Inr (yes_votes r, no_votes r)
           \<and> yes_count r = length (yes_votes r) \<and> no_count r = length (no_votes r)
           \<and> (passed r \<longleftrightarrow>
                (of_nat (yes_count r) / of_nat (yes_count r + no_count r) :: real)
                  \<ge> FEDERAL_ASSEMBLY_MAJORITY)
           \<and> (passed r \<longleftrightarrow>
                0 < yes_count r + no_count r
              \<and> 3 * (yes_count r + no_count r) \<le> 5 * yes_count r)"
  proof
    fix r assume "r \<in> set records"
    with each have votes: "collect_votes governors reports (vr_proposal r) STATE_CODES ([], [])
                = Inr (yes_votes r, no_votes r)"
      and r: "r = tally (vr_proposal r) (yes_votes r, no_votes r)" by blast+
    from r have counts: "yes_count r = length (yes_votes r)" "no_count r = length (no_votes r)"
      by (metis tally_fields(3)) (metis r tally_fields(4))
    note majority = tally_majority [of "vr_proposal r" "yes_votes r" "no_votes r", folded r]
    from majority [folded counts]
    have "passed r \<longleftrightarrow>
            (of_nat (yes_count r) / of_nat (yes_count r + no_count r) :: real)
              \<ge> FEDERAL_ASSEMBLY_MAJORITY"
      and "passed r \<longleftrightarrow>
            0 < yes_count r + no_count r \<and> 3 * (yes_count r + no_count r) \<le> 5 * yes_count r"
      by (rule conjunct1, rule conjunct1 [OF conjunct2])
    with votes counts show
      "collect_votes governors reports (vr_proposal r) STATE_CODES ([], [])
               = Inr (yes_votes r, no_votes r)
           \<and> yes_count r = length (yes_votes r) \<and> no_count r = length (no_votes r)
           \<and> (passed r \<longleftrightarrow>
                (of_nat (yes_count r) / of_nat (yes_count r + no_count r) :: real)
                  \<ge> FEDERAL_ASSEMBLY_MAJORITY)
           \<and> (passed r \<longleftrightarrow>
                0 < yes_count r + no_count r
              \<and> 3 * (yes_count r + no_count r) \<le> 5 * yes_count r)"
      by blast
  qed
  show ?thesis
    unfolding out by (intro conjI) (rule first, rule every, rule names, rule resolutions)
qed

lemma passed_names_view:
  "map vr_policy_name (filter passed records)
     = map fst (filter (\<lambda>item. snd (snd (snd item))) (map item_view records))"
  by (induction records) (simp_all add: item_view_def)

text \<open>
  The example assembly: the act of PB passes with six votes against four, at a ratio of
  exactly 0.6; the act of MH fails with five against five; the act of TN passes with
  ten votes counted as yes.
\<close>

lemma assembly_example_view:
  "meeting_view (convene_assembly new_parliament assembly_governors assembly_reports 50)
     = Some [(''Act of PB'', 6, 4, True), (''Act of MH'', 5, 5, False),
             (''Act of TN'', 10, 0, True)]"
  by (simp add: meeting_view_def item_view_def convene_assembly_def new_parliament_def
        assembly_governors_def assembly_reports_def act_of_def answer_def STATE_CODES_def
        tally_def Let_def upper_def upper_char_def FEDERAL_ASSEMBLY_MAJORITY_def
        py_round_def round_half_even_def)

theorem assembly_majority_witness:
  "\<exists>parl' meeting.
      convene_assembly new_parliament assembly_governors assembly_reports 50
        = Inr (parl', meeting)
    \<and> map item_view (voting_results meeting)
        = [(''Act of PB'', 6, 4, True), (''Act of MH'', 5, 5, False),
           (''Act of TN'', 10, 0, True)]
    \<and> mr_passed_resolutions meeting = [''Act of PB'', ''Act of TN'']
    \<and> map rs_name (passed_resolutions parl') = [''Act of PB'', ''Act of TN'']"
proof -
  from assembly_example_view obtain parl' meeting where
    run: "convene_assembly new_parliament assembly_governors assembly_reports 50
            = Inr (parl', meeting)"
    by (cases "convene_assembly new_parliament assembly_governors assembly_reports 50")
       (auto simp: meeting_view_def)
  with assembly_example_view have
    view: "map item_view (voting_results meeting)
             = [(''Act of PB'', 6, 4, True), (''Act of MH'', 5, 5, False),
                (''Act of TN'', 10, 0, True)]"
    by (simp add: meeting_view_def)
  from assembly_majority [OF run] have
    names: "mr_passed_resolutions meeting
              = map vr_policy_name (filter passed (voting_results meeting))"
    and resolutions: "passed_resolutions parl'
           = passed_resolutions new_parliament @
             map (\<lambda>r. \<lparr>rs_name = vr_policy_name r, rs_proposal = vr_proposal r,
                         tick_passed = 50\<rparr>) (filter passed (voting_results meeting))"
    by blast+
  have passed_names: "map vr_policy_name (filter passed (voting_results meeting))
                        = [''Act of PB'', ''Act of TN'']"
    unfolding passed_names_view view by simp
  from names passed_names have n: "mr_passed_resolutions meeting = [''Act of PB'', ''Act of TN'']"
    by simp
  from resolutions have "map rs_name (passed_resolutions parl')
      = map vr_policy_name (filter passed (voting_results meeting))"
    by (simp add: new_parliament_def o_def)
  with passed_names run view n show ?thesis by simp
qed

section \<open>Properties of the reward step\<close>


lemma rewards_loop_total:
  "\<forall>c\<in>set codes. rd c \<noteq> None \<Longrightarrow> \<exists>rd' g'. rewards_loop codes (rd, g) = Inr (rd', g')"
proof (induction codes arbitrary: rd g)
  case Nil
  show ?case by simp
next
  case (Cons code codes)
  from Cons.prems obtain r where r: "rd code = Some r" by auto
  let ?rd = "rd(code \<mapsto> reward_region r)"
  from Cons.prems have "\<forall>c\<in>set codes. ?rd c \<noteq> None" by simp
  from Cons.IH [OF this] obtain rd' g' where
    "rewards_loop codes (?rd, g @ [gdp_of r]) = Inr (rd', g')" by blast
  with r show ?case by simp
qed

lemma rewards_loop_other:
  "rewards_loop codes (rd, g) = Inr (rd', g') \<Longrightarrow> c \<notin> set codes \<Longrightarrow> rd' c = rd c"
proof (induction codes arbitrary: rd g)
  case Nil
  then show ?case by simp
next
  case (Cons code codes)
  then show ?case by (auto split: option.splits)
qed

lemma rewards_loop_at:
  "rewards_loop codes (rd, g) = Inr (rd', g') \<Longrightarrow> distinct codes \<Longrightarrow>
   c \<in> set codes \<Longrightarrow> rd c = Some r \<Longrightarrow> rd' c = Some (reward_region r)"
proof (induction codes arbitrary: rd g)
  case Nil
  then show ?case by simp
next
  case (Cons code codes)
  from Cons.prems(1) obtain r0 where r0: "rd code = Some r0"
    by (auto split: option.splits)
  with Cons.prems(1) have
    run: "rewards_loop codes (rd(code \<mapsto> reward_region r0), g @ [gdp_of r0]) = Inr (rd', g')"
    by simp
  show ?case
  proof (cases "c = code")
    case True
    with Cons.prems(2) have "code \<notin> set codes" by simp
    from rewards_loop_other [OF run this] True r0 Cons.prems(4) show ?thesis by simp
  next
    case False
    with Cons.prems have "distinct codes" "c \<in> set codes"
      "(rd(code \<mapsto> reward_region r0)) c = Some r" by auto
    from Cons.IH [OF run this] show ?thesis .
  qed
qed

lemma rewards_loop_scores:
  "rewards_loop codes (rd, g) = Inr (rd', g') \<Longrightarrow> distinct codes \<Longrightarrow>
   g' = g @ map (\<lambda>c. case rd c of None \<Rightarrow> 0 | Some r \<Rightarrow> gdp_of r) codes"
proof (induction codes arbitrary: rd g)
  case Nil
  then show ?case by simp
next
  case (Cons code codes)
  from Cons.prems(1) obtain r0 where r0: "rd code = Some r0"
    by (auto split: option.splits)
  with Cons.prems(1) have
    run: "rewards_loop codes (rd(code \<mapsto> reward_region r0), g @ [gdp_of r0]) = Inr (rd', g')"
    by simp
  from Cons.prems(2) have d: "distinct codes" and fresh: "code \<notin> set codes" by simp_all
  from fresh have "map (\<lambda>c. case (rd(code \<mapsto> reward_region r0)) c of None \<Rightarrow> 0 | Some r \<Rightarrow> gdp_of r) codes
      = map (\<lambda>c. case rd c of None \<Rightarrow> 0 | Some r \<Rightarrow> gdp_of r) codes"
    by (intro map_cong) auto
  with Cons.IH [OF run d] r0 show ?case by simp
qed

lemma step_rewards_present:
  assumes "\<forall>c\<in>set STATE_CODES. rd c \<noteq> None"
  shows "\<exists>rd'. step_rewards rd =
            Inr (rd', cooperative_reward
                        (map (\<lambda>c. case rd c of None \<Rightarrow> 0 | Some r \<Rightarrow> gdp_of r) STATE_CODES))
         \<and> (\<forall>c\<in>set STATE_CODES. \<forall>r. rd c = Some r \<longrightarrow> rd' c = Some (reward_region r))
         \<and> (\<forall>c. c \<notin> set STATE_CODES \<longrightarrow> rd' c = rd c)"
proof -
  from rewards_loop_total [OF assms] obtain rd' g' where
    run: "rewards_loop STATE_CODES (rd, []) = Inr (rd', g')" by blast
  from rewards_loop_scores [OF run distinct_STATE_CODES] have
    g': "g' = map (\<lambda>c. case rd c of None \<Rightarrow> 0 | Some r \<Rightarrow> gdp_of r) STATE_CODES" by simp
  have "\<forall>c\<in>set STATE_CODES. \<forall>r. rd c = Some r \<longrightarrow> rd' c = Some (reward_region r)"
    using rewards_loop_at [OF run distinct_STATE_CODES] by blast
  moreover have "\<forall>c. c \<notin> set STATE_CODES \<longrightarrow> rd' c = rd c"
    using rewards_loop_other [OF run] by blast
  ultimately show ?thesis using run g' by (simp add: step_rewards_def)
qed

lemma gdp_of_cong:
  "resources r1 = resources r2 \<Longrightarrow> population r1 = population r2 \<Longrightarrow>
   workforce_efficiency r1 = workforce_efficiency r2 \<Longrightarrow> gdp_of r1 = gdp_of r2"
  by (simp only: gdp_of_def)

lemma welfare_of_cong:
  "resources r1 = resources r2 \<Longrightarrow> unrest_level r1 = unrest_level r2 \<Longrightarrow>
   welfare_of r1 = welfare_of r2"
  by (simp only: welfare_of_def)

lemma new_unrest_of_cong:
  "resources r1 = resources r2 \<Longrightarrow> unrest_level r1 = unrest_level r2 \<Longrightarrow>
   new_unrest_of r1 = new_unrest_of r2"
  by (simp only: new_unrest_of_def welfare_of_cong [of r1 r2])

lemma reward_region_fields:
  "resources (reward_region r) = resources r"
  "population (reward_region r) = population r"
  "workforce_efficiency (reward_region r) = workforce_efficiency r"
  "gdp_score (reward_region r) = Some (gdp_of r)"
  "welfare_score (reward_region r) = Some (welfare_of r)"
  "unrest_level (reward_region r) = Some (new_unrest_of r)"
  by (simp_all add: reward_region_def)


text \<open>
  Claim C9. Take two ledgers that hold all ten states and agree, state by state, on the
  resources, the population, the workforce efficiency and the unrest level (the scores
  they hold may differ); in particular, take the same ledger twice. Step 10 returns on
  both, with the same reward summary and the same GDP score and welfare score for every
  state: the scores are a function of the resources and the demographics alone, and a
  score left in the ledger by an earlier run is never read. Moreover, running the step
  on its own output returns the same summary and the same GDP score for every state,
  and the same welfare score for every state whose unrest level the first run left as
  it was.
\<close>

theorem rewards_recompute:
  assumes "\<forall>c\<in>set STATE_CODES. \<exists>r1 r2. rd1 c = Some r1 \<and> rd2 c = Some r2
             \<and> resources r1 = resources r2 \<and> population r1 = population r2
             \<and> workforce_efficiency r1 = workforce_efficiency r2
             \<and> unrest_level r1 = unrest_level r2"
  shows "\<exists>rd1' rd2' rd1'' rw.
           step_rewards rd1 = Inr (rd1', rw) \<and> step_rewards rd2 = Inr (rd2', rw)
         \<and> step_rewards rd1' = Inr (rd1'', rw)
         \<and> (\<forall>c\<in>set STATE_CODES. \<exists>r1 r1' r2' r1''.
               rd1 c = Some r1 \<and> rd1' c = Some r1' \<and> rd2' c = Some r2' \<and> rd1'' c = Some r1''
             \<and> gdp_score r1' = gdp_score r2' \<and> welfare_score r1' = welfare_score r2'
             \<and> gdp_score r1'' = gdp_score r1'
             \<and> (unrest_level r1' = unrest_level r1 \<longrightarrow> welfare_score r1'' = welfare_score r1'))"
proof -
  from assms have p1: "\<forall>c\<in>set STATE_CODES. rd1 c \<noteq> None"
    and p2: "\<forall>c\<in>set STATE_CODES. rd2 c \<noteq> None" by fastforce+
  from step_rewards_present [OF p1] obtain rd1' where
    s1: "step_rewards rd1 = Inr (rd1', cooperative_reward
            (map (\<lambda>c. case rd1 c of None \<Rightarrow> 0 | Some r \<Rightarrow> gdp_of r) STATE_CODES))"
    and a1: "\<forall>c\<in>set STATE_CODES. \<forall>r. rd1 c = Some r \<longrightarrow> rd1' c = Some (reward_region r)"
    by blast
  from step_rewards_present [OF p2] obtain rd2' where
    s2: "step_rewards rd2 = Inr (rd2', cooperative_reward
            (map (\<lambda>c. case rd2 c of None \<Rightarrow> 0 | Some r \<Rightarrow> gdp_of r) STATE_CODES))"
    and a2: "\<forall>c\<in>set STATE_CODES. \<forall>r. rd2 c = Some r \<longrightarrow> rd2' c = Some (reward_region r)"
    by blast
  from a1 p1 have p1': "\<forall>c\<in>set STATE_CODES. rd1' c \<noteq> None" by fastforce
  from step_rewards_present [OF p1'] obtain rd1'' where
    s3: "step_rewards rd1' = Inr (rd1'', cooperative_reward
            (map (\<lambda>c. case rd1' c of None \<Rightarrow> 0 | Some r \<Rightarrow> gdp_of r) STATE_CODES))"
    and a3: "\<forall>c\<in>set STATE_CODES. \<forall>r. rd1' c = Some r \<longrightarrow> rd1'' c = Some (reward_region r)"
    by blast
  have g12: "map (\<lambda>c. case rd2 c of None \<Rightarrow> 0 | Some r \<Rightarrow> gdp_of r) STATE_CODES
           = map (\<lambda>c. case rd1 c of None \<Rightarrow> 0 | Some r \<Rightarrow> gdp_of r) STATE_CODES"
  proof (rule map_cong [OF refl])
    fix c assume "c \<in> set STATE_CODES"
    with assms obtain r1 r2 where "rd1 c = Some r1" "rd2 c = Some r2"
      "resources r1 = resources r2" "population r1 = population r2"
      "workforce_efficiency r1 = workforce_efficiency r2" by blast
    then show "(case rd2 c of None \<Rightarrow> 0 | Some r \<Rightarrow> gdp_of r)
             = (case rd1 c of None \<Rightarrow> 0 | Some r \<Rightarrow> gdp_of r)"
      by (simp add: gdp_of_cong [of r1 r2])
  qed
  have g11: "map (\<lambda>c. case rd1' c of None \<Rightarrow> 0 | Some r \<Rightarrow> gdp_of r) STATE_CODES
           = map (\<lambda>c. case rd1 c of None \<Rightarrow> 0 | Some r \<Rightarrow> gdp_of r) STATE_CODES"
  proof (rule map_cong [OF refl])
    fix c assume c: "c \<in> set STATE_CODES"
    with p1 obtain r1 where r1: "rd1 c = Some r1" by auto
    with a1 c have "rd1' c = Some (reward_region r1)" by blast
    with r1 show "(case rd1' c of None \<Rightarrow> 0 | Some r \<Rightarrow> gdp_of r)
             = (case rd1 c of None \<Rightarrow> 0 | Some r \<Rightarrow> gdp_of r)"
      by (simp add: gdp_of_cong [of "reward_region r1" r1] reward_region_fields)
  qed
  have each: "\<forall>c\<in>set STATE_CODES. \<exists>r1 r1' r2' r1''.
               rd1 c = Some r1 \<and> rd1' c = Some r1' \<and> rd2' c = Some r2' \<and> rd1'' c = Some r1''
             \<and> gdp_score r1' = gdp_score r2' \<and> welfare_score r1' = welfare_score r2'
             \<and> gdp_score r1'' = gdp_score r1'
             \<and> (unrest_level r1' = unrest_level r1 \<longrightarrow> welfare_score r1'' = welfare_score r1')"
  proof
    fix c assume c: "c \<in> set STATE_CODES"
    with assms obtain r1 r2 where r: "rd1 c = Some r1" "rd2 c = Some r2"
      and eq: "resources r1 = resources r2" "population r1 = population r2"
      "workforce_efficiency r1 = workforce_efficiency r2" "unrest_level r1 = unrest_level r2"
      by blast
    from a1 a2 c r have r': "rd1' c = Some (reward_region r1)" "rd2' c = Some (reward_region r2)"
      by blast+
    with a3 c have r'': "rd1'' c = Some (reward_region (reward_region r1))" by blast
    have "gdp_score (reward_region r1) = gdp_score (reward_region r2)"
      by (simp add: reward_region_fields gdp_of_cong [OF eq(1,2,3)])
    moreover have "welfare_score (reward_region r1) = welfare_score (reward_region r2)"
      by (simp add: reward_region_fields welfare_of_cong [OF eq(1,4)])
    moreover have "gdp_score (reward_region (reward_region r1)) = gdp_score (reward_region r1)"
      by (simp add: reward_region_fields gdp_of_cong [of "reward_region r1" r1])
    moreover have "unrest_level (reward_region r1) = unrest_level r1 \<longrightarrow>
        welfare_score (reward_region (reward_region r1)) = welfare_score (reward_region r1)"
      by (simp add: reward_region_fields(1,5) welfare_of_cong [of "reward_region r1" r1])
    ultimately show "\<exists>r1 r1' r2' r1''.
               rd1 c = Some r1 \<and> rd1' c = Some r1' \<and> rd2' c = Some r2' \<and> rd1'' c = Some r1''
             \<and> gdp_score r1' = gdp_score r2' \<and> welfare_score r1' = welfare_score r2'
             \<and> gdp_score r1'' = gdp_score r1'
             \<and> (unrest_level r1' = unrest_level r1 \<longrightarrow> welfare_score r1'' = welfare_score r1')"
      using r r' r'' by blast
  qed
  from s1 s2 s3 g12 g11 each show ?thesis by (simp only:) blast
qed

lemma blank_regions_present: "\<forall>c\<in>set STATE_CODES. blank_regions c \<noteq> None"
  by (simp add: blank_regions_def)

lemma welfare_of_empty:
  assumes "resources r = Map.empty" and "unrest_level r = u"
  shows "welfare_of r = py_round (min 100 (max 0 ((1 - oget u 0) * 20))) 1"
  using assms by (simp add: welfare_of_def dget_def Let_def RESOURCE_MAX_def)

lemma welfare_blank: "welfare_of blank_region = 20"
proof -
  have "resources blank_region = Map.empty" "unrest_level blank_region = None"
    by (simp_all add: blank_region_def)
  from welfare_of_empty [OF this] show ?thesis
    by (simp add: oget_def py_round_def round_half_even_def)
qed

lemma new_unrest_blank: "new_unrest_of blank_region = 2 / 100"
proof -
  have "unrest_level blank_region = None" by (simp add: blank_region_def)
  then show ?thesis by (simp add: new_unrest_of_def welfare_blank oget_def Let_def)
qed

lemma welfare_blank_again: "welfare_of (reward_region blank_region) = 196 / 10"
proof -
  have "resources (reward_region blank_region) = Map.empty"
    "unrest_level (reward_region blank_region) = Some (2 / 100)"
    by (simp_all add: reward_region_fields new_unrest_blank) (simp add: blank_region_def)
  from welfare_of_empty [OF this] show ?thesis
    by (simp add: oget_def py_round_def round_half_even_def)
qed

lemma scored_regions_agree:
  "\<forall>c\<in>set STATE_CODES. \<exists>r1 r2. scored_regions c = Some r1 \<and> stale_regions c = Some r2
             \<and> resources r1 = resources r2 \<and> population r1 = population r2
             \<and> workforce_efficiency r1 = workforce_efficiency r2
             \<and> unrest_level r1 = unrest_level r2"
  by (simp add: stale_regions_def scored_regions_def blank_regions_def)

lemma scored_punjab:
  assumes "scored_regions ''PB'' = Some r"
  shows "gdp_of r = 14" and "welfare_of r = 58" and "new_unrest_of r = 1 / 10"
proof -
  from assms have r: "resources r = [''water'' \<mapsto> 1500, ''energy'' \<mapsto> 500, ''food'' \<mapsto> 2250,
                         ''tech'' \<mapsto> 1000]"
    "population r = Some 5000000" "workforce_efficiency r = Some (8 / 10)"
    "unrest_level r = Some (1 / 10)"
    by (auto simp: scored_regions_def blank_region_def)
  show "gdp_of r = 14"
    by (simp add: gdp_of_def r dget_def oget_def Let_def py_round_def round_half_even_def)
  show w: "welfare_of r = 58"
    by (simp add: welfare_of_def r dget_def oget_def Let_def RESOURCE_MAX_def py_round_def
          round_half_even_def)
  show "new_unrest_of r = 1 / 10"
    by (simp add: new_unrest_of_def w r oget_def Let_def)
qed

theorem rewards_recompute_witness:
  "\<exists>rd1' rd2' rd1'' rw r1' r2' r1''.
      step_rewards scored_regions = Inr (rd1', rw) \<and> step_rewards stale_regions = Inr (rd2', rw)
    \<and> step_rewards rd1' = Inr (rd1'', rw)
    \<and> rd1' ''PB'' = Some r1' \<and> rd2' ''PB'' = Some r2' \<and> rd1'' ''PB'' = Some r1''
    \<and> gdp_score r1' = Some 14 \<and> gdp_score r2' = Some 14 \<and> gdp_score r1'' = Some 14
    \<and> welfare_score r1' = Some 58 \<and> welfare_score r2' = Some 58
    \<and> welfare_score r1'' = Some 58"
proof -
  have pb: "''PB'' \<in> set STATE_CODES" by (simp add: STATE_CODES_def)
  obtain r where r: "scored_regions ''PB'' = Some r" by (simp add: scored_regions_def)
  have present: "\<forall>c\<in>set STATE_CODES. scored_regions c \<noteq> None"
    by (simp add: scored_regions_def blank_regions_def)
  from rewards_recompute [OF scored_regions_agree] obtain rd1' rd2' rd1'' rw where
    s1: "step_rewards scored_regions = Inr (rd1', rw)"
    and s2: "step_rewards stale_regions = Inr (rd2', rw)"
    and s3: "step_rewards rd1' = Inr (rd1'', rw)"
    and each: "\<forall>c\<in>set STATE_CODES. \<exists>r1 r1' r2' r1''.
               scored_regions c = Some r1 \<and> rd1' c = Some r1' \<and> rd2' c = Some r2'
             \<and> rd1'' c = Some r1''
             \<and> gdp_score r1' = gdp_score r2' \<and> welfare_score r1' = welfare_score r2'
             \<and> gdp_score r1'' = gdp_score r1'
             \<and> (unrest_level r1' = unrest_level r1 \<longrightarrow> welfare_score r1'' = welfare_score r1')"
    by blast
  from each pb r obtain r1' r2' r1'' where
    at: "rd1' ''PB'' = Some r1'" "rd2' ''PB'' = Some r2'" "rd1'' ''PB'' = Some r1''"
    and same: "gdp_score r1' = gdp_score r2'" "welfare_score r1' = welfare_score r2'"
      "gdp_score r1'' = gdp_score r1'"
    and again: "unrest_level r1' = unrest_level r \<longrightarrow> welfare_score r1'' = welfare_score r1'"
    by fastforce
  from step_rewards_present [OF present] s1 pb r have "rd1' ''PB'' = Some (reward_region r)"
    by auto
  with at(1) have r1': "r1' = reward_region r" by simp
  have unrest: "unrest_level r = Some (1 / 10)"
    using r by (auto simp: scored_regions_def blank_region_def)
  from r1' have "gdp_score r1' = Some 14" "welfare_score r1' = Some 58"
    "unrest_level r1' = unrest_level r"
    by (simp_all add: reward_region_fields scored_punjab [OF r] unrest)
  with same again s1 s2 s3 at show ?thesis by simp
qed

text \<open>
  The output of the step is not the ledger it read: the step writes the unrest level.
  On ten states that hold nothing, the first run scores welfare 20 and raises unrest
  from 0 to 0.02; a run on that output reads the new unrest and scores welfare 19.6.
\<close>

lemma rewards_rerun_on_output:
  "welfare_after_rewards 1 blank_regions ''PB'' = Some 20
 \<and> welfare_after_rewards 2 blank_regions ''PB'' = Some (196 / 10)"
proof -
  have pb: "''PB'' \<in> set STATE_CODES" by (simp add: STATE_CODES_def)
  then have b: "blank_regions ''PB'' = Some blank_region" by (simp add: blank_regions_def)
  from step_rewards_present [OF blank_regions_present] obtain rd1 rw1 where
    s1: "step_rewards blank_regions = Inr (rd1, rw1)"
    and a1: "\<forall>c\<in>set STATE_CODES. \<forall>r. blank_regions c = Some r \<longrightarrow> rd1 c = Some (reward_region r)"
    by blast
  from a1 pb b have r1: "rd1 ''PB'' = Some (reward_region blank_region)" by blast
  from a1 blank_regions_present have p1: "\<forall>c\<in>set STATE_CODES. rd1 c \<noteq> None" by fastforce
  from step_rewards_present [OF p1] obtain rd2 rw2 where
    s2: "step_rewards rd1 = Inr (rd2, rw2)"
    and a2: "\<forall>c\<in>set STATE_CODES. \<forall>r. rd1 c = Some r \<longrightarrow> rd2 c = Some (reward_region r)"
    by blast
  from a2 pb r1 have r2: "rd2 ''PB'' = Some (reward_region (reward_region blank_region))" by blast
  have "welfare_after_rewards 1 blank_regions ''PB'' = Some 20"
    using s1 r1 by (simp add: welfare_after_rewards_def reward_region_fields welfare_blank)
  moreover have "welfare_after_rewards 2 blank_regions ''PB'' = Some (196 / 10)"
    using s1 s2 r2
    by (simp add: welfare_after_rewards_def eval_nat_numeral reward_region_fields welfare_blank_again)
  ultimately show ?thesis by simp
qed

section \<open>Population through a tick\<close>


lemma same_population_refl: "same_population rd rd"
  by (simp add: same_population_def)

lemma same_population_trans:
  "same_population rd rd' \<Longrightarrow> same_population rd' rd'' \<Longrightarrow> same_population rd rd''"
  by (simp add: same_population_def)

lemma same_population_upd:
  "rd c = Some r \<Longrightarrow> population r' = population r \<Longrightarrow> same_population rd (rd(c \<mapsto> r'))"
  by (simp add: same_population_def)

lemma same_population_of:
  "same_population rd rd' \<Longrightarrow> population_of rd' c = population_of rd c"
proof -
  assume "same_population rd rd'"
  then have "map_option population (rd' c) = map_option population (rd c)"
    by (simp add: same_population_def)
  then show ?thesis
    by (cases "rd c"; cases "rd' c") (simp_all add: population_of_def)
qed

lemma same_population_dom: "same_population rd rd' \<Longrightarrow> rd' c = None \<longleftrightarrow> rd c = None"
proof -
  assume "same_population rd rd'"
  then have "map_option population (rd' c) = map_option population (rd c)"
    by (simp add: same_population_def)
  then show ?thesis by (cases "rd c"; cases "rd' c") simp_all
qed

lemma produce_consume_loop_population:
  "produce_consume_loop codes (rd, ups) = Inr (rd', ups') \<Longrightarrow> same_population rd rd'"
proof (induction codes arbitrary: rd ups)
  case Nil
  then show ?case by (simp add: same_population_refl)
next
  case (Cons code codes)
  from Cons.prems obtain r where r: "rd code = Some r"
    and run: "produce_consume_loop codes
                (rd(code \<mapsto> r\<lparr>resources := new_resources r\<rparr>), ups(code \<mapsto> new_resources r))
              = Inr (rd', ups')"
    by (auto split: option.splits)
  have "same_population rd (rd(code \<mapsto> r\<lparr>resources := new_resources r\<rparr>))"
    using r by (intro same_population_upd [where r = r]) simp_all
  from same_population_trans [OF this Cons.IH [OF run]] show ?case .
qed

lemma apply_policies_loop_population:
  "apply_policies_loop codes rd = Inr rd' \<Longrightarrow> same_population rd rd'"
proof (induction codes arbitrary: rd)
  case Nil
  then show ?case by (simp add: same_population_refl)
next
  case (Cons code codes)
  from Cons.prems obtain r where r: "rd code = Some r"
    and run: "apply_policies_loop codes (rd(code \<mapsto> r\<lparr>resources := apply_policies_region r\<rparr>))
              = Inr rd'"
    by (auto split: option.splits)
  have "same_population rd (rd(code \<mapsto> r\<lparr>resources := apply_policies_region r\<rparr>))"
    using r by (intro same_population_upd [where r = r]) simp_all
  from same_population_trans [OF this Cons.IH [OF run]] show ?case .
qed

lemma update_region_resources_local_population:
  "same_population rd (update_region_resources_local code res val rd)"
  by (cases "rd code") (simp_all add: update_region_resources_local_def same_population_def)

lemma deliver_population:
  assumes "deliver (Some update_region_resources_local) t giver receiver leg (rd, blog, result)
             = (rd', blog', result')"
  shows "same_population rd rd'"
proof -
  obtain resource amount where leg: "leg = (resource, amount)" by (cases leg)
  show ?thesis
  proof (cases "stock rd giver resource \<ge> amount")
    case True
    let ?rd1 = "update_region_resources_local giver resource (stock rd giver resource - amount) rd"
    from assms leg True have
      "rd' = update_region_resources_local receiver resource
               (stock ?rd1 receiver resource + amount) ?rd1"
      by (simp add: deliver_def Let_def)
    then show ?thesis
      using same_population_trans [OF update_region_resources_local_population
              update_region_resources_local_population]
      by simp
  next
    case False
    with assms leg have "rd' = rd" by (simp add: deliver_def Let_def)
    then show ?thesis by (simp add: same_population_refl)
  qed
qed

lemma fold_deliver_population:
  "fold (deliver (Some update_region_resources_local) t giver receiver) legs (rd, blog, result)
     = (rd', blog', result') \<Longrightarrow> same_population rd rd'"
proof (induction legs arbitrary: rd blog result)
  case Nil
  then show ?case by (simp add: same_population_refl)
next
  case (Cons leg legs)
  obtain rd1 blog1 result1 where
    d: "deliver (Some update_region_resources_local) t giver receiver leg (rd, blog, result)
          = (rd1, blog1, result1)"
    by (metis prod_cases3)
  with Cons.prems have
    "fold (deliver (Some update_region_resources_local) t giver receiver) legs (rd1, blog1, result1)
       = (rd', blog', result')" by simp
  from same_population_trans [OF deliver_population [OF d] Cons.IH [OF this]] show ?case .
qed

lemma enforce_single_population:
  assumes "enforce_single tr rd (Some update_region_resources_local) t = (rd', tr', result)"
  shows "same_population rd rd'"
proof -
  let ?r0 = "\<lparr>res_treaty_id = treaty_id tr, res_from = from_region tr,
              res_to = to_region tr, transfers = [], breaches = []\<rparr>"
  obtain rd1 blog1 result1 where
    f1: "fold (deliver (Some update_region_resources_local) t (from_region tr) (to_region tr))
           (per_tick_offer tr) (rd, treaty_breaches tr, ?r0) = (rd1, blog1, result1)"
    by (metis prod_cases3)
  obtain rd2 blog2 result2 where
    f2: "fold (deliver (Some update_region_resources_local) t (to_region tr) (from_region tr))
           (per_tick_request tr) (rd1, blog1, result1) = (rd2, blog2, result2)"
    by (metis prod_cases3)
  from assms f1 f2 have "rd' = rd2" by (simp add: enforce_single_def Let_def)
  with same_population_trans [OF fold_deliver_population [OF f1] fold_deliver_population [OF f2]]
  show ?thesis by simp
qed

lemma enforce_loop_population:
  "enforce_loop (Some update_region_resources_local) t trs rd = (rd', active, expired, results)
   \<Longrightarrow> same_population rd rd'"
proof (induction trs arbitrary: rd rd' active expired results)
  case Nil
  then show ?case by (simp add: same_population_refl)
next
  case (Cons tr trs)
  show ?case
  proof (cases "is_active tr")
    case False
    obtain rd1 a1 e1 r1 where
      rest: "enforce_loop (Some update_region_resources_local) t trs rd = (rd1, a1, e1, r1)"
      by (metis prod_cases4)
    with Cons.prems False have "rd' = rd1" by simp
    with Cons.IH [OF rest] show ?thesis by simp
  next
    case True
    obtain rd1 t1 result where
      one: "enforce_single tr rd (Some update_region_resources_local) t = (rd1, t1, result)"
      by (metis prod_cases3)
    obtain rd2 a2 e2 r2 where
      rest: "enforce_loop (Some update_region_resources_local) t trs rd1 = (rd2, a2, e2, r2)"
      by (metis prod_cases4)
    from Cons.prems True one rest have "rd' = rd2"
      by (simp add: Let_def split: if_splits)
    with same_population_trans [OF enforce_single_population [OF one] Cons.IH [OF rest]]
    show ?thesis by simp
  qed
qed

lemma apply_trust_adjustments_population:
  "same_population rd (apply_trust_adjustments adj rd)"
  by (auto simp: same_population_def apply_trust_adjustments_def option.map_comp o_def
           split: option.splits)

lemma step_enforce_treaties_population:
  assumes "step_enforce_treaties tm t rd = Inr (rd', tm', results)"
  shows "same_population rd rd'"
proof (cases "active_treaties tm = []")
  case True
  with assms show ?thesis by (simp add: step_enforce_treaties_def same_population_refl)
next
  case False
  obtain rd1 a1 e1 r1 where
    loop: "enforce_loop (Some update_region_resources_local) t (active_treaties tm) rd
             = (rd1, a1, e1, r1)"
    by (metis prod_cases4)
  with assms False obtain adj where "rd' = apply_trust_adjustments adj rd1"
    by (auto simp: step_enforce_treaties_def enforce_treaties_def split: sum.splits)
  with same_population_trans [OF enforce_loop_population [OF loop]
         apply_trust_adjustments_population [of rd1 adj]]
  show ?thesis by simp
qed


lemma apply_climate_event_population: "same_population rd (apply_climate_event event rd)"
proof (cases event)
  case (EXPIRED e)
  then show ?thesis by (simp add: apply_climate_event_def same_population_refl)
next
  case (TRIGGERED info)
  show ?thesis
  proof (cases "rd (trg_target_region info)")
    case None
    with TRIGGERED show ?thesis by (simp add: apply_climate_event_def same_population_refl)
  next
    case (Some r)
    show ?thesis
    proof (cases "trg_impact info")
      case None
      with TRIGGERED Some show ?thesis by (simp add: apply_climate_event_def same_population_refl)
    next
      case (Some impact)
      with TRIGGERED \<open>rd (trg_target_region info) = Some r\<close> show ?thesis
        by (simp add: apply_climate_event_def same_population_def)
    qed
  qed
qed

lemma fold_apply_climate_event_population:
  "same_population rd (fold apply_climate_event events rd)"
proof (induction events arbitrary: rd)
  case Nil
  show ?case by (simp add: same_population_refl)
next
  case (Cons event events)
  from same_population_trans [OF apply_climate_event_population Cons.IH]
  show ?case by simp
qed

lemma step_climate_population:
  "step_climate ce t rnd fs rd = Inr (rd', ce', events) \<Longrightarrow> same_population rd rd'"
  by (auto simp: step_climate_def fold_apply_climate_event_population split: sum.splits)

lemma put_resources_population: "same_population rd (put_resources code res rd)"
  by (cases "rd code") (simp_all add: put_resources_def same_population_def)

lemma execute_direct_trade_population:
  "same_population rd (execute_direct_trade rd from_code to_code offer request)"
proof -
  have "\<And>a b rd. same_population rd (put_resources to_code a (put_resources from_code b rd))"
    by (rule same_population_trans [OF put_resources_population put_resources_population])
  then show ?thesis
    by (simp add: execute_direct_trade_def Let_def split: prod.splits)
qed

lemma governor_negotiate_population:
  assumes "governor_negotiate governors reports rd code rep = (rd', act)"
  shows "same_population rd rd'"
proof -
  from assms have "rd' = rd \<or> (\<exists>partner offer request.
      rd' = execute_direct_trade rd code partner offer request)"
    by (auto simp: governor_negotiate_def Let_def
             split: list.splits option.splits sum.splits if_splits)
  then show ?thesis
    by (auto simp: same_population_refl execute_direct_trade_population)
qed

lemma governor_decisions_loop_population:
  "governor_decisions_loop governors reports invoke_all affected codes (rd, actions) = (rd', actions')
   \<Longrightarrow> same_population rd rd'"
proof (induction codes arbitrary: rd actions)
  case Nil
  then show ?case by (simp add: same_population_refl)
next
  case (Cons code codes)
  let ?rep = "report_of reports code"
  show ?case
  proof (cases "invoke_all \<or> oget (needs_governor ?rep) False \<or> code \<in> affected")
    case False
    with Cons.prems have
      "governor_decisions_loop governors reports invoke_all affected codes (rd, actions)
         = (rd', actions')" by (simp add: Let_def)
    from Cons.IH [OF this] show ?thesis .
  next
    case True
    obtain rd1 act where n: "governor_negotiate governors reports rd code ?rep = (rd1, act)"
      by (cases "governor_negotiate governors reports rd code ?rep")
    with Cons.prems True obtain actions1 where
      "governor_decisions_loop governors reports invoke_all affected codes (rd1, actions1)
         = (rd', actions')"
      by (cases act) (auto simp: Let_def)
    from same_population_trans [OF governor_negotiate_population [OF n] Cons.IH [OF this]]
    show ?thesis .
  qed
qed

lemma match_partner_population:
  "match_partner reports code offer request codes (rd, trades) = (rd', trades')
   \<Longrightarrow> same_population rd rd'"
proof (induction codes)
  case Nil
  then show ?case by (simp add: same_population_refl)
next
  case (Cons other codes)
  then show ?case
    by (auto simp: Let_def execute_direct_trade_population split: if_splits option.splits)
qed

lemma match_recommendations_population:
  "match_recommendations reports code recs (rd, trades) = (rd', trades')
   \<Longrightarrow> same_population rd rd'"
proof (induction recs arbitrary: rd trades)
  case Nil
  then show ?case by (simp add: same_population_refl)
next
  case (Cons rec recs)
  show ?case
  proof (cases "action rec \<noteq> Some ''TRADE'' \<or> oget (offer_resource rec) [] = []
                \<or> oget (request_resource rec) [] = [] \<or> oget (offer_amount rec) 0 \<le> 0")
    case True
    with Cons.prems have "match_recommendations reports code recs (rd, trades) = (rd', trades')"
      by (auto simp: Let_def split: if_splits)
    from Cons.IH [OF this] show ?thesis .
  next
    case False
    obtain rd1 trades1 where
      m: "match_partner reports code (oget (offer_resource rec) [], oget (offer_amount rec) 0)
            (oget (request_resource rec) [], oget (request_amount rec) 0) STATE_CODES (rd, trades)
          = (rd1, trades1)"
      by (metis surj_pair)
    with Cons.prems False have
      "match_recommendations reports code recs (rd1, trades1) = (rd', trades')"
      by (simp add: Let_def split: if_splits)
    from same_population_trans [OF match_partner_population [OF m] Cons.IH [OF this]]
    show ?thesis .
  qed
qed

lemma trade_matching_loop_population:
  "trade_matching_loop reports codes (rd, trades) = (rd', trades') \<Longrightarrow> same_population rd rd'"
proof (induction codes arbitrary: rd trades)
  case Nil
  then show ?case by (simp add: same_population_refl)
next
  case (Cons code codes)
  obtain rd1 trades1 where
    m: "match_recommendations reports code (trade_recommendations (report_of reports code))
          (rd, trades) = (rd1, trades1)"
    by (metis surj_pair)
  with Cons.prems have "trade_matching_loop reports codes (rd1, trades1) = (rd', trades')"
    by simp
  from same_population_trans [OF match_recommendations_population [OF m] Cons.IH [OF this]]
  show ?case .
qed

lemma rewards_loop_population:
  "rewards_loop codes (rd, g) = Inr (rd', g') \<Longrightarrow> same_population rd rd'"
proof (induction codes arbitrary: rd g)
  case Nil
  then show ?case by (simp add: same_population_refl)
next
  case (Cons code codes)
  from Cons.prems obtain r where r: "rd code = Some r"
    and run: "rewards_loop codes (rd(code \<mapsto> reward_region r), g @ [gdp_of r]) = Inr (rd', g')"
    by (auto split: option.splits)
  have "same_population rd (rd(code \<mapsto> reward_region r))"
    using r by (intro same_population_upd [where r = r]) (simp_all add: reward_region_def)
  from same_population_trans [OF this Cons.IH [OF run]] show ?case .
qed


lemma and_then_Inr: "and_then x f = Inr y \<longleftrightarrow> (\<exists>a. x = Inr a \<and> f a = Inr y)"
  by (cases x) (simp_all add: and_then_def)

lemma and_then_Inr2:
  "and_then x (\<lambda>(a, b). f a b) = Inr y \<longleftrightarrow> (\<exists>a b. x = Inr (a, b) \<and> f a b = Inr y)"
  by (cases x) (auto simp: and_then_def)

lemma and_then_Inr3:
  "and_then x (\<lambda>(a, b, c). f a b c) = Inr y \<longleftrightarrow> (\<exists>a b c. x = Inr (a, b, c) \<and> f a b c = Inr y)"
  by (cases x) (auto simp: and_then_def)

lemma case_prod_Inr:
  "(case p of (a, b) \<Rightarrow> f a b) = Inr y \<longleftrightarrow> (\<exists>a b. p = (a, b) \<and> f a b = Inr y)"
  by (cases p) simp

lemma tick_Inr:
  assumes "tick ev w = Inr (w', events)"
  shows "\<exists>rd1 ups rd2 rd3 tm enforced reports rd5 ce cevents rd6 actions rd7 trades rd8 moved
           parl meeting rd10 rw.
      step_produce_consume (regions_data w) = Inr (rd1, ups)
    \<and> step_apply_policies rd1 = Inr rd2
    \<and> step_enforce_treaties (w_treaty_manager w) (current_tick w + 1) rd2 = Inr (rd3, tm, enforced)
    \<and> step_finops_analysis (env_analyze ev) rd3 = Inr reports
    \<and> step_climate (w_climate_engine w) (current_tick w + 1) (env_rng ev)
          (if firebase_sync w then Some (env_firestore ev) else None) rd3 = Inr (rd5, ce, cevents)
    \<and> (if use_llm w
        then step_governor_decisions (env_governors ev) reports ce (current_tick w + 1) rd5
        else (rd5, [])) = (rd6, actions)
    \<and> step_trade_matching reports rd6 = (rd7, trades)
    \<and> step_migration rd7 = Inr (rd8, moved)
    \<and> step_assembly w ev reports (current_tick w + 1) = Inr (parl, meeting)
    \<and> step_rewards rd8 = Inr (rd10, rw)
    \<and> regions_data w' = rd10
    \<and> current_tick w' = current_tick w + 1
    \<and> w_climate_engine w' = ce
    \<and> te_migrations events = moved
    \<and> climate_events events = cevents
    \<and> te_tick events = current_tick w + 1"
proof -
  from assms obtain rd1 ups rd2 rd3 tm enforced reports rd5 ce cevents rd6 actions rd7 trades
      rd8 moved parl meeting rd10 rw where
    "step_produce_consume (regions_data w) = Inr (rd1, ups)"
    "step_apply_policies rd1 = Inr rd2"
    "step_enforce_treaties (w_treaty_manager w) (current_tick w + 1) rd2 = Inr (rd3, tm, enforced)"
    "step_finops_analysis (env_analyze ev) rd3 = Inr reports"
    "step_climate (w_climate_engine w) (current_tick w + 1) (env_rng ev)
          (if firebase_sync w then Some (env_firestore ev) else None) rd3 = Inr (rd5, ce, cevents)"
    "(if use_llm w
        then step_governor_decisions (env_governors ev) reports ce (current_tick w + 1) rd5
        else (rd5, [])) = (rd6, actions)"
    "step_trade_matching reports rd6 = (rd7, trades)"
    "step_migration rd7 = Inr (rd8, moved)"
    "step_assembly w ev reports (current_tick w + 1) = Inr (parl, meeting)"
    "step_rewards rd8 = Inr (rd10, rw)"
    "w' = w\<lparr>current_tick := current_tick w + 1, w_climate_engine := ce, w_treaty_manager := tm,
            w_parliament := parl, regions_data := rd10, state_reports := reports,
            tick_log := tick_log w @
              [\<lparr>te_tick = current_tick w + 1, resource_updates = resource_updates_view rd10,
                trades_executed = trades,
                treaties_enforced = enforced, climate_events = cevents,
                te_migrations = moved, llm_actions = actions, assembly = meeting,
                te_rewards = rw\<rparr>]\<rparr>"
    "events = \<lparr>te_tick = current_tick w + 1, resource_updates = resource_updates_view rd10,
                trades_executed = trades,
                treaties_enforced = enforced, climate_events = cevents,
                te_migrations = moved, llm_actions = actions, assembly = meeting,
                te_rewards = rw\<rparr>"
    by (simp add: tick_def Let_def and_then_Inr case_prod_Inr) blast
  then show ?thesis by (intro exI conjI) simp_all
qed


lemma best_destination_fold:
  assumes "fold (\<lambda>dest_code (best_dest, best_welfare).
             if dest_code = code then (best_dest, best_welfare)
             else
               let dest_welfare = (case rd dest_code of
                                     None \<Rightarrow> 0
                                   | Some r \<Rightarrow> oget (welfare_score r) 0)
               in if dest_welfare > best_welfare then (Some dest_code, dest_welfare)
                  else (best_dest, best_welfare)) codes (b, bw) = (b', bw')"
    and "0 \<le> bw"
  shows "0 \<le> bw' \<and> (b' = b \<or> (\<exists>d. b' = Some d \<and> d \<in> set codes \<and> d \<noteq> code \<and> rd d \<noteq> None))"
  using assms
proof (induction codes arbitrary: b bw)
  case Nil
  then show ?case by simp
next
  case (Cons dest codes)
  let ?w = "case rd dest of None \<Rightarrow> 0 | Some r \<Rightarrow> oget (welfare_score r) 0"
  show ?case
  proof (cases "dest \<noteq> code \<and> ?w > bw")
    case True
    with Cons.prems(2) have pos: "0 \<le> ?w" by simp
    from True Cons.prems(2) have here: "rd dest \<noteq> None" by (auto split: option.splits)
    from True Cons.prems(1) have "fold (\<lambda>dest_code (best_dest, best_welfare).
             if dest_code = code then (best_dest, best_welfare)
             else
               let dest_welfare = (case rd dest_code of
                                     None \<Rightarrow> 0
                                   | Some r \<Rightarrow> oget (welfare_score r) 0)
               in if dest_welfare > best_welfare then (Some dest_code, dest_welfare)
                  else (best_dest, best_welfare)) codes (Some dest, ?w) = (b', bw')"
      by (simp add: Let_def)
    from Cons.IH [OF this pos] True here show ?thesis by auto
  next
    case False
    with Cons.prems(1) have "fold (\<lambda>dest_code (best_dest, best_welfare).
             if dest_code = code then (best_dest, best_welfare)
             else
               let dest_welfare = (case rd dest_code of
                                     None \<Rightarrow> 0
                                   | Some r \<Rightarrow> oget (welfare_score r) 0)
               in if dest_welfare > best_welfare then (Some dest_code, dest_welfare)
                  else (best_dest, best_welfare)) codes (b, bw) = (b', bw')"
      by (auto simp: Let_def split: if_splits)
    from Cons.IH [OF this Cons.prems(2)] show ?thesis by auto
  qed
qed

lemma best_destination_Some:
  assumes "best_destination rd code = (Some d, bw)"
  shows "d \<in> set STATE_CODES \<and> d \<noteq> code \<and> rd d \<noteq> None"
  using best_destination_fold [of code rd STATE_CODES None 0 "Some d" bw] assms
  by (simp add: best_destination_def)

lemma migration_delta_simps:
  "migration_delta [] c = 0"
  "migration_delta (ms @ ms') c = migration_delta ms c + migration_delta ms' c"
  "migration_delta [m] c = (if mg_to m = c then migrants m else 0)
                           - (if mg_from m = c then migrants m else 0)"
  by (simp_all add: migration_delta_def)

lemma migrate_from_effect:
  assumes "migrate_from code (rd, ms) = Inr (rd', ms')"
  shows "\<exists>new. ms' = ms @ new
     \<and> (\<forall>c. population_of rd' c = population_of rd c + migration_delta new c)
     \<and> (\<forall>m\<in>set new. mg_from m = code \<and> mg_to m \<in> set STATE_CODES \<and> mg_to m \<noteq> code)"
proof -
  let ?welfare = "case rd code of None \<Rightarrow> 50 | Some r \<Rightarrow> oget (welfare_score r) 50"
  let ?pop = "case rd code of None \<Rightarrow> 0 | Some r \<Rightarrow> oget (population r) 0"
  let ?n = "py_int (of_int ?pop * MIGRATION_RATE)"
  obtain bd bw where best: "best_destination rd code = (bd, bw)" by (metis surj_pair)
  show ?thesis
  proof (cases "?welfare < WELFARE_MIGRATION_THRESHOLD \<and> (\<exists>d. bd = Some d \<and> d \<noteq> [])
                \<and> bw > ?welfare \<and> ?n > 0")
    case False
    with assms best have "rd' = rd" "ms' = ms"
      by (auto simp: migrate_from_def Let_def split: option.splits if_splits)
    then show ?thesis by (simp add: migration_delta_simps)
  next
    case True
    then obtain d where bd: "bd = Some d" and dne: "d \<noteq> []" by blast
    from best_destination_Some [OF best [unfolded bd]] have
      d: "d \<in> set STATE_CODES" "d \<noteq> code" "rd d \<noteq> None" by simp_all
    from assms True best bd obtain r where r: "rd code = Some r"
      by (auto simp: migrate_from_def Let_def split: option.splits if_splits)
    from d(3) obtain dr where dr: "rd d = Some dr" by auto
    from r have pop: "?pop = oget (population r) 0" by simp
    let ?m = "\<lparr>mg_from = code, mg_to = d, migrants = ?n\<rparr>"
    from assms True best bd r dr d(2) have
      rd': "rd' = rd(code \<mapsto> r\<lparr>population := Some (?pop - ?n)\<rparr>,
                     d \<mapsto> dr\<lparr>population := Some (oget (population dr) 0 + ?n)\<rparr>)"
      and ms': "ms' = ms @ [?m]"
      by (simp_all add: migrate_from_def Let_def)
    have "\<forall>c. population_of rd' c = population_of rd c + migration_delta [?m] c"
      using d(2) r dr by (auto simp: rd' population_of_def migration_delta_simps oget_def)
    with ms' d show ?thesis by auto
  qed
qed

lemma migration_loop_effect:
  "migration_loop codes (rd, ms) = Inr (rd', ms') \<Longrightarrow>
   \<exists>new. ms' = ms @ new
     \<and> (\<forall>c. population_of rd' c = population_of rd c + migration_delta new c)
     \<and> (\<forall>m\<in>set new. mg_from m \<in> set codes \<and> mg_to m \<in> set STATE_CODES \<and> mg_to m \<noteq> mg_from m)"
proof (induction codes arbitrary: rd ms)
  case Nil
  then show ?case by (simp add: migration_delta_simps)
next
  case (Cons code codes)
  from Cons.prems obtain rd1 ms1 where
    one: "migrate_from code (rd, ms) = Inr (rd1, ms1)"
    and rest: "migration_loop codes (rd1, ms1) = Inr (rd', ms')"
    by (auto split: sum.splits)
  from migrate_from_effect [OF one] obtain new1 where
    n1: "ms1 = ms @ new1"
    "\<forall>c. population_of rd1 c = population_of rd c + migration_delta new1 c"
    "\<forall>m\<in>set new1. mg_from m = code \<and> mg_to m \<in> set STATE_CODES \<and> mg_to m \<noteq> code"
    by blast
  from Cons.IH [OF rest] obtain new2 where
    n2: "ms' = ms1 @ new2"
    "\<forall>c. population_of rd' c = population_of rd1 c + migration_delta new2 c"
    "\<forall>m\<in>set new2. mg_from m \<in> set codes \<and> mg_to m \<in> set STATE_CODES \<and> mg_to m \<noteq> mg_from m"
    by blast
  have "ms' = ms @ (new1 @ new2)" using n1(1) n2(1) by simp
  moreover have "\<forall>c. population_of rd' c = population_of rd c + migration_delta (new1 @ new2) c"
    using n1(2) n2(2) by (simp add: migration_delta_simps)
  moreover have "\<forall>m\<in>set (new1 @ new2). mg_from m \<in> set (code # codes)
      \<and> mg_to m \<in> set STATE_CODES \<and> mg_to m \<noteq> mg_from m"
    using n1(3) n2(3) by auto
  ultimately show ?case by blast
qed

lemma sum_list_indicator:
  "distinct xs \<Longrightarrow> x \<in> set xs \<Longrightarrow> (\<Sum>c\<leftarrow>xs. if x = c then n else (0::int)) = n"
proof (induction xs)
  case Nil
  then show ?case by simp
next
  case (Cons a xs)
  show ?case
  proof (cases "x = a")
    case True
    with Cons.prems have "x \<notin> set xs" by simp
    then have "(\<Sum>c\<leftarrow>xs. if x = c then n else (0::int)) = 0"
      by (induction xs) auto
    with True show ?thesis by simp
  next
    case False
    with Cons show ?thesis by simp
  qed
qed

lemma migration_delta_total:
  assumes "\<forall>m\<in>set ms. mg_from m \<in> set STATE_CODES \<and> mg_to m \<in> set STATE_CODES"
  shows "(\<Sum>c\<leftarrow>STATE_CODES. migration_delta ms c) = 0"
  using assms
proof (induction ms)
  case Nil
  then show ?case by (simp add: migration_delta_def)
next
  case (Cons m ms)
  have split: "\<And>c. migration_delta (m # ms) c =
      (if mg_to m = c then migrants m else 0) - (if mg_from m = c then migrants m else 0)
      + migration_delta ms c"
    by (simp add: migration_delta_def)
  from Cons.prems have a: "(\<Sum>c\<leftarrow>STATE_CODES. if mg_to m = c then migrants m else 0) = migrants m"
    and b: "(\<Sum>c\<leftarrow>STATE_CODES. if mg_from m = c then migrants m else 0) = migrants m"
    by (simp_all add: sum_list_indicator distinct_STATE_CODES)
  from Cons have ih: "(\<Sum>c\<leftarrow>STATE_CODES. migration_delta ms c) = 0" by simp
  show ?case
    unfolding split by (simp add: sum_list_addf sum_list_subtractf a b ih)
qed

lemma step_migration_effect:
  assumes "step_migration rd = Inr (rd', ms)"
  shows "(\<forall>c. population_of rd' c = population_of rd c + migration_delta ms c)
       \<and> (\<forall>m\<in>set ms. mg_from m \<in> set STATE_CODES \<and> mg_to m \<in> set STATE_CODES
             \<and> mg_to m \<noteq> mg_from m)"
  using migration_loop_effect [of STATE_CODES rd "[]" rd' ms] assms
  by (simp add: step_migration_def)

lemma same_population_governor_step:
  "(if llm then step_governor_decisions governors reports ce t rd else (rd, [])) = (rd', actions)
   \<Longrightarrow> same_population rd rd'"
  by (auto simp: step_governor_decisions_def same_population_refl
           dest: governor_decisions_loop_population split: if_splits)

text \<open>
  Claim C5. For a tick that returns, the population of every region after the tick is
  its population before plus what the migration records of the tick add to it: each
  record subtracts its migrant count from its source and adds the same count to its
  destination, source and destination are two different states, and nothing else
  (no other step) changes a population. Hence the total over the ten states is the same
  before and after. Within one tick two states under the threshold may move to the same
  destination: the migration step run on \<open>race_regions\<close> moves PB and TN both to MH.
\<close>

lemma migration_race:
  "map_sum id snd (step_migration race_regions)
     = Inr [\<lparr>mg_from = ''PB'', mg_to = ''MH'', migrants = 20\<rparr>,
            \<lparr>mg_from = ''TN'', mg_to = ''MH'', migrants = 10\<rparr>]"
  by (simp add: step_migration_def STATE_CODES_def migrate_from_def best_destination_def
        race_regions_def blank_regions_def blank_region_def oget_def Let_def py_int_def
        WELFARE_MIGRATION_THRESHOLD_def MIGRATION_RATE_def)

theorem tick_population:
  assumes "tick ev w = Inr (w', events)"
  shows "(\<forall>c. population_of (regions_data w') c
              = population_of (regions_data w) c + migration_delta (te_migrations events) c)
       \<and> (\<forall>m\<in>set (te_migrations events).
             mg_from m \<in> set STATE_CODES \<and> mg_to m \<in> set STATE_CODES \<and> mg_to m \<noteq> mg_from m)
       \<and> total_population (regions_data w') = total_population (regions_data w)
       \<and> map_sum id snd (step_migration race_regions)
           = Inr [\<lparr>mg_from = ''PB'', mg_to = ''MH'', migrants = 20\<rparr>,
                  \<lparr>mg_from = ''TN'', mg_to = ''MH'', migrants = 10\<rparr>]"
proof -
  from tick_Inr [OF assms] obtain rd1 ups rd2 rd3 tm enforced reports rd5 ce cevents rd6 actions
      rd7 trades rd8 moved parl meeting rd10 rw where
    s1: "step_produce_consume (regions_data w) = Inr (rd1, ups)"
    and s2: "step_apply_policies rd1 = Inr rd2"
    and s3: "step_enforce_treaties (w_treaty_manager w) (current_tick w + 1) rd2
               = Inr (rd3, tm, enforced)"
    and s5: "step_climate (w_climate_engine w) (current_tick w + 1) (env_rng ev)
          (if firebase_sync w then Some (env_firestore ev) else None) rd3 = Inr (rd5, ce, cevents)"
    and s6: "(if use_llm w
        then step_governor_decisions (env_governors ev) reports ce (current_tick w + 1) rd5
        else (rd5, [])) = (rd6, actions)"
    and s7: "step_trade_matching reports rd6 = (rd7, trades)"
    and s8: "step_migration rd7 = Inr (rd8, moved)"
    and s10: "step_rewards rd8 = Inr (rd10, rw)"
    and w': "regions_data w' = rd10" and ev: "te_migrations events = moved"
    by blast
  have p1: "same_population (regions_data w) rd1"
    using s1 by (auto simp: step_produce_consume_def dest: produce_consume_loop_population)
  have p2: "same_population rd1 rd2"
    using s2 by (auto simp: step_apply_policies_def dest: apply_policies_loop_population)
  have p3: "same_population rd2 rd3" by (rule step_enforce_treaties_population [OF s3])
  have p5: "same_population rd3 rd5" by (rule step_climate_population [OF s5])
  have p6: "same_population rd5 rd6" by (rule same_population_governor_step [OF s6])
  have p7: "same_population rd6 rd7"
    using s7 by (auto simp: step_trade_matching_def dest: trade_matching_loop_population)
  have p10: "same_population rd8 rd10"
    using s10 by (auto simp: step_rewards_def dest: rewards_loop_population split: sum.splits)
  have before: "same_population (regions_data w) rd7"
    by (rule same_population_trans [OF p1 same_population_trans [OF p2 same_population_trans
          [OF p3 same_population_trans [OF p5 same_population_trans [OF p6 p7]]]]])
  note mig = step_migration_effect [OF s8]
  have each: "\<forall>c. population_of (regions_data w') c
              = population_of (regions_data w) c + migration_delta (te_migrations events) c"
    using mig same_population_of [OF before] same_population_of [OF p10]
    by (simp add: w' ev)
  have moves: "\<forall>m\<in>set (te_migrations events).
             mg_from m \<in> set STATE_CODES \<and> mg_to m \<in> set STATE_CODES \<and> mg_to m \<noteq> mg_from m"
    using mig by (simp add: ev)
  have "total_population (regions_data w')
          = (\<Sum>c\<leftarrow>STATE_CODES. population_of (regions_data w) c
                + migration_delta (te_migrations events) c)"
    using each by (simp add: total_population_def)
  also have "\<dots> = total_population (regions_data w)
                   + (\<Sum>c\<leftarrow>STATE_CODES. migration_delta (te_migrations events) c)"
    by (simp add: sum_list_addf total_population_def)
  also have "\<dots> = total_population (regions_data w)"
    using moves by (simp add: migration_delta_total)
  finally show ?thesis using each moves migration_race by blast
qed

section \<open>Failures of the collaborators\<close>


lemma and_then_simps: "and_then (Inr a) f = f a" "and_then (Inl e) f = Inl e"
  by (simp_all add: and_then_def)

lemma apply_policies_loop_total:
  "\<forall>c\<in>set codes. rd c \<noteq> None \<Longrightarrow> \<exists>rd'. apply_policies_loop codes rd = Inr rd'"
proof (induction codes arbitrary: rd)
  case Nil
  show ?case by simp
next
  case (Cons code codes)
  from Cons.prems obtain r where r: "rd code = Some r" by auto
  let ?rd = "rd(code \<mapsto> r\<lparr>resources := apply_policies_region r\<rparr>)"
  from Cons.prems have "\<forall>c\<in>set codes. ?rd c \<noteq> None" by simp
  from Cons.IH [OF this] obtain rd' where "apply_policies_loop codes ?rd = Inr rd'" by blast
  with r show ?case by simp
qed

lemma deliver_wf:
  assumes "deliver update t giver receiver leg (rd, blog, result) = (rd', blog', result')"
    and "wf_result result" and "giver = res_from result \<or> giver = res_to result"
  shows "wf_result result' \<and> res_from result' = res_from result \<and> res_to result' = res_to result"
proof -
  obtain resource amount where leg: "leg = (resource, amount)" by (cases leg)
  show ?thesis
  proof (cases "stock rd giver resource \<ge> amount")
    case True
    with assms leg show ?thesis by (auto simp: deliver_def Let_def wf_result_def)
  next
    case False
    with assms leg show ?thesis by (auto simp: deliver_def Let_def wf_result_def)
  qed
qed

lemma fold_deliver_wf:
  "fold (deliver update t giver receiver) legs (rd, blog, result) = (rd', blog', result') \<Longrightarrow>
   wf_result result \<Longrightarrow> giver = res_from result \<or> giver = res_to result \<Longrightarrow>
   wf_result result' \<and> res_from result' = res_from result \<and> res_to result' = res_to result"
proof (induction legs arbitrary: rd blog result)
  case Nil
  then show ?case by simp
next
  case (Cons leg legs)
  obtain rd1 blog1 result1 where
    d: "deliver update t giver receiver leg (rd, blog, result) = (rd1, blog1, result1)"
    by (metis prod_cases3)
  with Cons.prems(1) have
    f: "fold (deliver update t giver receiver) legs (rd1, blog1, result1) = (rd', blog', result')"
    by simp
  from deliver_wf [OF d Cons.prems(2,3)] have
    w1: "wf_result result1" "res_from result1 = res_from result" "res_to result1 = res_to result"
    by simp_all
  from Cons.IH [OF f w1(1)] w1 Cons.prems(3) show ?case by simp
qed

lemma enforce_single_wf:
  assumes "enforce_single tr rd update t = (rd', tr', result)"
  shows "wf_result result"
proof -
  let ?r0 = "\<lparr>res_treaty_id = treaty_id tr, res_from = from_region tr,
              res_to = to_region tr, transfers = [], breaches = []\<rparr>"
  obtain rd1 blog1 result1 where
    f1: "fold (deliver update t (from_region tr) (to_region tr))
           (per_tick_offer tr) (rd, treaty_breaches tr, ?r0) = (rd1, blog1, result1)"
    by (metis prod_cases3)
  obtain rd2 blog2 result2 where
    f2: "fold (deliver update t (to_region tr) (from_region tr))
           (per_tick_request tr) (rd1, blog1, result1) = (rd2, blog2, result2)"
    by (metis prod_cases3)
  have w0: "wf_result ?r0" by (simp add: wf_result_def)
  from fold_deliver_wf [OF f1 w0] have
    w1: "wf_result result1" "res_from result1 = from_region tr" "res_to result1 = to_region tr"
    by simp_all
  from fold_deliver_wf [OF f2 w1(1)] w1 have "wf_result result2" by simp
  moreover from assms f1 f2 have "result = result2" by (simp add: enforce_single_def Let_def)
  ultimately show ?thesis by simp
qed

lemma enforce_loop_wf:
  "enforce_loop update t trs rd = (rd', active, expired, results) \<Longrightarrow>
   \<forall>result\<in>set results. wf_result result"
proof (induction trs arbitrary: rd rd' active expired results)
  case Nil
  then show ?case by simp
next
  case (Cons tr trs)
  show ?case
  proof (cases "is_active tr")
    case False
    obtain rd1 a1 e1 r1 where
      rest: "enforce_loop update t trs rd = (rd1, a1, e1, r1)"
      by (metis prod_cases4)
    with Cons.prems False have "results = r1" by simp
    with Cons.IH [OF rest] show ?thesis by simp
  next
    case True
    obtain rd1 t1 result where
      one: "enforce_single tr rd update t = (rd1, t1, result)"
      by (metis prod_cases3)
    obtain rd2 a2 e2 r2 where
      rest: "enforce_loop update t trs rd1 = (rd2, a2, e2, r2)"
      by (metis prod_cases4)
    from Cons.prems True one rest have "results = result # r2"
      by (simp add: Let_def split: if_splits)
    with enforce_single_wf [OF one] Cons.IH [OF rest] show ?thesis by simp
  qed
qed

lemma step_enforce_treaties_total:
  "\<exists>rd' tm' results. step_enforce_treaties tm t rd = Inr (rd', tm', results)"
proof (cases "active_treaties tm = []")
  case True
  then show ?thesis by (simp add: step_enforce_treaties_def)
next
  case False
  obtain rd1 a1 e1 r1 where
    loop: "enforce_loop (Some update_region_resources_local) t (active_treaties tm) rd
             = (rd1, a1, e1, r1)"
    by (metis prod_cases4)
  from enforce_loop_wf [OF loop] have
    "\<forall>result\<in>set r1. \<forall>b\<in>set (breaches result).
        breacher b = res_from result \<or> breacher b = res_to result"
    by (simp add: wf_result_def)
  from trust_adjustments_loop_sum [OF this, of Map.empty] obtain adj where
    "calculate_trust_adjustments r1 = Inr adj"
    by (auto simp: calculate_trust_adjustments_def)
  with False loop show ?thesis
    by (simp add: step_enforce_treaties_def enforce_treaties_def)
qed

lemma finops_loop_total:
  "\<forall>c r. \<exists>rep. analyze c r = Inr rep \<Longrightarrow> \<exists>reports'. finops_loop analyze rd codes reports = Inr reports'"
proof (induction codes arbitrary: reports)
  case Nil
  show ?case by simp
next
  case (Cons code codes)
  from Cons.prems obtain rep where rep: "analyze code (rd code) = Inr rep" by blast
  from Cons.IH [OF Cons.prems] obtain reports' where
    "finops_loop analyze rd codes (reports(code \<mapsto> rep)) = Inr reports'" by blast
  with rep show ?case by simp
qed

lemma step_climate_total:
  assumes "case fs of None \<Rightarrow> True | Some f \<Rightarrow> climate_store_reliable f"
  shows "\<exists>rd' ce' events. step_climate ce t rnd fs rd = Inr (rd', ce', events)"
proof -
  from climate_tick_total [OF assms, of ce t rnd] obtain ce' events where
    "climate_tick ce t rnd fs = Inr (ce', events)" by force
  then show ?thesis by (simp add: step_climate_def)
qed

lemma migrate_from_total: "\<exists>st'. migrate_from code st = Inr st'"
proof -
  obtain rd ms where st: "st = (rd, ms)" by (cases st)
  obtain bd bw where best: "best_destination rd code = (bd, bw)" by (metis surj_pair)
  show ?thesis
  proof (cases "rd code")
    case None
    with st show ?thesis
      by (simp add: migrate_from_def Let_def WELFARE_MIGRATION_THRESHOLD_def)
  next
    case (Some r)
    show ?thesis
    proof (cases bd)
      case None
      with st best Some show ?thesis by (simp add: migrate_from_def Let_def)
    next
      case (Some d)
      from best_destination_Some [OF best [unfolded Some]] have "d \<noteq> code" "rd d \<noteq> None"
        by simp_all
      then obtain dr where "rd d = Some dr" by auto
      with st best Some \<open>rd code = Some r\<close> \<open>d \<noteq> code\<close> show ?thesis
        by (simp add: migrate_from_def Let_def)
    qed
  qed
qed

lemma migration_loop_total: "\<exists>st'. migration_loop codes st = Inr st'"
proof (induction codes arbitrary: st)
  case Nil
  show ?case by simp
next
  case (Cons code codes)
  from migrate_from_total [of code st] obtain st1 where "migrate_from code st = Inr st1" by blast
  with Cons.IH [of st1] show ?case by simp
qed

lemma step_migration_total: "\<exists>rd' ms. step_migration rd = Inr (rd', ms)"
  using migration_loop_total [of STATE_CODES "(rd, [])"] by (auto simp: step_migration_def)


lemma collect_proposals_total:
  "assembly_reliable governors \<Longrightarrow> \<exists>ps. collect_proposals governors reports codes = Inr ps"
proof (induction codes)
  case Nil
  show ?case by simp
next
  case (Cons code codes)
  from Cons.IH [OF Cons.prems] obtain ps where
    rest: "collect_proposals governors reports codes = Inr ps" by blast
  show ?case
  proof (cases "governors code")
    case None
    with rest show ?thesis by simp
  next
    case (Some gov)
    show ?thesis
    proof (cases "reports code")
      case None
      with Some rest show ?thesis by simp
    next
      case (Some rep)
      from Cons.prems \<open>governors code = Some gov\<close> obtain p where
        "propose_federal_policy gov rep reports = Inr p"
        unfolding assembly_reliable_def by blast
      with Some \<open>governors code = Some gov\<close> rest show ?thesis by simp
    qed
  qed
qed

lemma collect_votes_total:
  "assembly_reliable governors \<Longrightarrow> \<exists>vs. collect_votes governors reports p codes votes = Inr vs"
proof (induction codes arbitrary: votes)
  case Nil
  show ?case by simp
next
  case (Cons code codes)
  obtain yes no where votes: "votes = (yes, no)" by (cases votes)
  show ?case
  proof (cases "governors code")
    case None
    with Cons.IH [OF Cons.prems, of "(yes, no)"] votes show ?thesis by simp
  next
    case (Some gov)
    show ?thesis
    proof (cases "reports code")
      case None
      with Some Cons.IH [OF Cons.prems, of "(yes, no)"] votes show ?thesis by simp
    next
      case (Some rep)
      from Cons.prems \<open>governors code = Some gov\<close> obtain v where
        v: "vote_on_policy gov rep p = Inr v"
        unfolding assembly_reliable_def by blast
      let ?u = "upper (case vote v of None \<Rightarrow> ''YES'' | Some s \<Rightarrow> s)"
      let ?next = "if ?u = ''YES'' then (yes @ [code], no)
                   else if ?u = ''NO'' then (yes, no @ [code]) else (yes @ [code], no)"
      from Cons.IH [OF Cons.prems, of ?next] obtain vs where
        "collect_votes governors reports p codes ?next = Inr vs" by blast
      with Some \<open>governors code = Some gov\<close> v votes show ?thesis
        by (simp add: Let_def)
    qed
  qed
qed

lemma vote_on_proposals_total:
  "assembly_reliable governors \<Longrightarrow>
   \<exists>rs ns vs. vote_on_proposals governors reports t ps st = Inr (rs, ns, vs)"
proof (induction ps arbitrary: st)
  case Nil
  obtain resolutions rest where "st = (resolutions, rest)" by (cases st)
  moreover obtain names records where "rest = (names, records)" by (cases rest)
  ultimately show ?case by simp
next
  case (Cons p ps)
  obtain resolutions rest where "st = (resolutions, rest)" by (cases st)
  moreover obtain names records where "rest = (names, records)" by (cases rest)
  ultimately have st: "st = (resolutions, names, records)" by simp
  from collect_votes_total [OF Cons.prems, of reports p STATE_CODES "([], [])"] obtain vs where
    vs: "collect_votes governors reports p STATE_CODES ([], []) = Inr vs" by blast
  let ?next = "if passed (tally p vs)
             then (resolutions @ [\<lparr>rs_name = vr_policy_name (tally p vs), rs_proposal = p,
                                    tick_passed = t\<rparr>],
                   names @ [vr_policy_name (tally p vs)], records @ [tally p vs])
             else (resolutions, names, records @ [tally p vs])"
  from Cons.IH [OF Cons.prems, of ?next] obtain rs' ns' vs' where
    "vote_on_proposals governors reports t ps ?next = Inr (rs', ns', vs')" by blast
  with vs st show ?case by (simp add: Let_def)
qed

lemma convene_assembly_total:
  assumes "assembly_reliable governors"
  shows "\<exists>r. convene_assembly parl governors reports t = Inr r"
proof -
  from collect_proposals_total [OF assms, of reports STATE_CODES] obtain ps where
    ps: "collect_proposals governors reports STATE_CODES = Inr ps" by blast
  from vote_on_proposals_total [OF assms, of reports t "take 3 ps" "(passed_resolutions parl, [], [])"]
  obtain resolutions names records where
    "vote_on_proposals governors reports t (take 3 ps) (passed_resolutions parl, [], [])
       = Inr (resolutions, names, records)"
    by blast
  with ps show ?thesis by (simp add: convene_assembly_def Let_def)
qed

lemma step_assembly_total:
  assumes "use_llm w \<longrightarrow> assembly_reliable (env_governors ev)"
  shows "\<exists>parl meeting. step_assembly w ev reports t = Inr (parl, meeting)"
proof (cases "t mod FEDERAL_ASSEMBLY_INTERVAL = 0 \<and> use_llm w")
  case False
  then show ?thesis by (auto simp: step_assembly_def)
next
  case True
  with assms have "assembly_reliable (env_governors ev)" by simp
  from convene_assembly_total [OF this, of "w_parliament w" reports t] obtain parl meeting where
    "convene_assembly (w_parliament w) (env_governors ev) reports t = Inr (parl, meeting)"
    by force
  with True show ?thesis by (simp add: step_assembly_def and_then_simps)
qed

lemma migrate_from_frame:
  assumes "migrate_from code (rd, ms) = Inr (rd', ms')"
  shows "same_resources rd rd'"
proof -
  let ?welfare = "case rd code of None \<Rightarrow> 50 | Some r \<Rightarrow> oget (welfare_score r) 50"
  let ?pop = "case rd code of None \<Rightarrow> 0 | Some r \<Rightarrow> oget (population r) 0"
  let ?n = "py_int (of_int ?pop * MIGRATION_RATE)"
  obtain bd bw where best: "best_destination rd code = (bd, bw)" by (metis surj_pair)
  show ?thesis
  proof (cases "?welfare < WELFARE_MIGRATION_THRESHOLD \<and> (\<exists>d. bd = Some d \<and> d \<noteq> [])
                \<and> bw > ?welfare \<and> ?n > 0")
    case False
    with assms best have "rd' = rd"
      by (auto simp: migrate_from_def Let_def split: option.splits if_splits)
    then show ?thesis by (simp add: same_resources_def)
  next
    case True
    then obtain d where bd: "bd = Some d" and dne: "d \<noteq> []" by blast
    from best_destination_Some [OF best [unfolded bd]] have
      d: "d \<noteq> code" "rd d \<noteq> None" by simp_all
    from assms True best bd obtain r where r: "rd code = Some r"
      by (auto simp: migrate_from_def Let_def split: option.splits if_splits)
    from d(2) obtain dr where dr: "rd d = Some dr" by auto
    from assms True best bd r dr d(1) have
      "rd' = rd(code \<mapsto> r\<lparr>population := Some (?pop - ?n)\<rparr>,
                d \<mapsto> dr\<lparr>population := Some (oget (population dr) 0 + ?n)\<rparr>)"
      by (simp add: migrate_from_def Let_def)
    with r dr show ?thesis by (simp add: same_resources_def)
  qed
qed

lemma same_resources_refl: "same_resources rd rd"
  by (simp add: same_resources_def)

lemma same_resources_trans:
  "same_resources rd rd' \<Longrightarrow> same_resources rd' rd'' \<Longrightarrow> same_resources rd rd''"
  by (simp add: same_resources_def)

lemma same_resources_dom: "same_resources rd rd' \<Longrightarrow> rd' c = None \<longleftrightarrow> rd c = None"
proof -
  assume "same_resources rd rd'"
  then have "map_option resources (rd' c) = map_option resources (rd c)"
    by (simp add: same_resources_def)
  then show ?thesis by (cases "rd c"; cases "rd' c") simp_all
qed

lemma migration_loop_frame:
  "migration_loop codes (rd, ms) = Inr (rd', ms') \<Longrightarrow> same_resources rd rd'"
proof (induction codes arbitrary: rd ms)
  case Nil
  then show ?case by (simp add: same_resources_refl)
next
  case (Cons code codes)
  from Cons.prems obtain rd1 ms1 where
    one: "migrate_from code (rd, ms) = Inr (rd1, ms1)"
    and rest: "migration_loop codes (rd1, ms1) = Inr (rd', ms')"
    by (auto split: sum.splits)
  from same_resources_trans [OF migrate_from_frame [OF one] Cons.IH [OF rest]] show ?case .
qed

lemma step_migration_frame: "step_migration rd = Inr (rd', ms) \<Longrightarrow> same_resources rd rd'"
  by (auto simp: step_migration_def dest: migration_loop_frame)

lemma rewards_loop_frame:
  "rewards_loop codes (rd, g) = Inr (rd', g') \<Longrightarrow> same_resources rd rd'"
proof (induction codes arbitrary: rd g)
  case Nil
  then show ?case by (simp add: same_resources_refl)
next
  case (Cons code codes)
  from Cons.prems obtain r where r: "rd code = Some r"
    and run: "rewards_loop codes (rd(code \<mapsto> reward_region r), g @ [gdp_of r]) = Inr (rd', g')"
    by (auto split: option.splits)
  have "same_resources rd (rd(code \<mapsto> reward_region r))"
    using r by (simp add: same_resources_def reward_region_def)
  from same_resources_trans [OF this Cons.IH [OF run]] show ?case .
qed

lemma step_rewards_frame: "step_rewards rd = Inr (rd', rw) \<Longrightarrow> same_resources rd rd'"
  by (auto simp: step_rewards_def dest: rewards_loop_frame split: sum.splits)

text \<open>
  The tick returns a report when the ten region documents are present and three kinds of
  collaborator calls do not raise: the financial analysis, the two climate operations of
  the store (when synchronisation is on) and the governors' proposals and votes in the
  assembly (when the advisors are on). What \<open>negotiate_trade\<close> or the synchronisation
  step raise plays no part: both are caught where they are called.
\<close>

lemma tick_total:
  assumes present: "\<forall>c\<in>set STATE_CODES. regions_data w c \<noteq> None"
    and analysis: "analysis_reliable (env_analyze ev)"
    and store: "firebase_sync w \<longrightarrow> climate_store_reliable (env_firestore ev)"
    and advisors: "use_llm w \<longrightarrow> assembly_reliable (env_governors ev)"
  shows "\<exists>w' events. tick ev w = Inr (w', events)"
proof -
  let ?t = "current_tick w + 1"
  let ?fs = "if firebase_sync w then Some (env_firestore ev) else None"
  from produce_consume_loop_total [OF present, of Map.empty] obtain rd1 ups where
    s1: "step_produce_consume (regions_data w) = Inr (rd1, ups)"
    unfolding step_produce_consume_def by blast
  have p1: "same_population (regions_data w) rd1"
    using s1 by (auto simp: step_produce_consume_def dest: produce_consume_loop_population)
  from present same_population_dom [OF p1] have pr1: "\<forall>c\<in>set STATE_CODES. rd1 c \<noteq> None" by simp
  from apply_policies_loop_total [OF pr1] obtain rd2 where
    s2: "step_apply_policies rd1 = Inr rd2" by (auto simp: step_apply_policies_def)
  have p2: "same_population rd1 rd2"
    using s2 by (auto simp: step_apply_policies_def dest: apply_policies_loop_population)
  from step_enforce_treaties_total obtain rd3 tm enforced where
    s3: "step_enforce_treaties (w_treaty_manager w) ?t rd2 = Inr (rd3, tm, enforced)" by blast
  have p3: "same_population rd2 rd3" by (rule step_enforce_treaties_population [OF s3])
  from analysis have "\<forall>c r. \<exists>rep. env_analyze ev c r = Inr rep"
    by (simp add: analysis_reliable_def)
  from finops_loop_total [OF this, of rd3 STATE_CODES Map.empty] obtain reports where
    s4: "step_finops_analysis (env_analyze ev) rd3 = Inr reports"
    unfolding step_finops_analysis_def by blast
  have "case ?fs of None \<Rightarrow> True | Some f \<Rightarrow> climate_store_reliable f"
    using store by simp
  from step_climate_total [OF this] obtain rd5 ce cevents where
    s5: "step_climate (w_climate_engine w) ?t (env_rng ev) ?fs rd3 = Inr (rd5, ce, cevents)"
    by blast
  have p5: "same_population rd3 rd5" by (rule step_climate_population [OF s5])
  obtain rd6 actions where
    s6: "(if use_llm w then step_governor_decisions (env_governors ev) reports ce ?t rd5
          else (rd5, [])) = (rd6, actions)" by (metis surj_pair)
  have p6: "same_population rd5 rd6" by (rule same_population_governor_step [OF s6])
  obtain rd7 trades where s7: "step_trade_matching reports rd6 = (rd7, trades)"
    by (metis surj_pair)
  have p7: "same_population rd6 rd7"
    using s7 by (auto simp: step_trade_matching_def dest: trade_matching_loop_population)
  from step_migration_total obtain rd8 moved where
    s8: "step_migration rd7 = Inr (rd8, moved)" by blast
  from step_assembly_total [OF advisors] obtain parl meeting where
    s9: "step_assembly w ev reports ?t = Inr (parl, meeting)" by blast
  have "\<forall>c\<in>set STATE_CODES. rd7 c \<noteq> None"
    using pr1 same_population_dom [OF p2] same_population_dom [OF p3] same_population_dom [OF p5]
      same_population_dom [OF p6] same_population_dom [OF p7] by simp
  with same_resources_dom [OF step_migration_frame [OF s8]]
  have pr8: "\<forall>c\<in>set STATE_CODES. rd8 c \<noteq> None" by simp
  from rewards_loop_total [OF pr8, of "[]"] obtain rd10 g where
    "rewards_loop STATE_CODES (rd8, []) = Inr (rd10, g)" by blast
  then obtain rw where s10: "step_rewards rd8 = Inr (rd10, rw)"
    by (simp add: step_rewards_def)
  show ?thesis
    unfolding tick_def Let_def
    by (simp add: s1 s2 s3 s4 s5 s6 s7 s8 s9 s10 and_then_simps)
qed

lemma quiet_env_reliable:
  "analysis_reliable (env_analyze quiet_env)"
  "climate_store_reliable (env_firestore quiet_env)"
  "assembly_reliable (env_governors quiet_env)"
  by (simp_all add: quiet_env_def analysis_reliable_def climate_store_reliable_def
        quiet_store_def assembly_reliable_def)

lemma race_regions_present: "\<forall>c\<in>set STATE_CODES. race_regions c \<noteq> None"
  by (simp add: race_regions_def blank_regions_def)

theorem tick_population_witness:
  "\<exists>w' events. tick quiet_env (start_world race_regions) = Inr (w', events)
     \<and> total_population (regions_data w') = total_population (regions_data (start_world race_regions))
     \<and> total_population (regions_data w') = 1600"
proof -
  have present: "\<forall>c\<in>set STATE_CODES. regions_data (start_world race_regions) c \<noteq> None"
    using race_regions_present by (simp add: start_world_def)
  from tick_total [OF present quiet_env_reliable(1)] quiet_env_reliable(2,3)
  obtain w' events where t: "tick quiet_env (start_world race_regions) = Inr (w', events)"
    by blast
  have "total_population (regions_data (start_world race_regions)) = 1600"
    by (simp add: total_population_def population_of_def start_world_def race_regions_def
          blank_regions_def blank_region_def STATE_CODES_def oget_def)
  with tick_population [OF t] t show ?thesis by simp
qed

lemma steps_before_analysis:
  assumes "\<forall>c\<in>set STATE_CODES. regions_data w c \<noteq> None"
  shows "\<exists>rd1 ups rd2 rd3 tm enforced.
           step_produce_consume (regions_data w) = Inr (rd1, ups)
         \<and> step_apply_policies rd1 = Inr rd2
         \<and> step_enforce_treaties (w_treaty_manager w) (current_tick w + 1) rd2
             = Inr (rd3, tm, enforced)"
proof -
  from produce_consume_loop_total [OF assms, of Map.empty] obtain rd1 ups where
    s1: "step_produce_consume (regions_data w) = Inr (rd1, ups)"
    unfolding step_produce_consume_def by blast
  have p1: "same_population (regions_data w) rd1"
    using s1 by (auto simp: step_produce_consume_def dest: produce_consume_loop_population)
  from assms same_population_dom [OF p1] have pr1: "\<forall>c\<in>set STATE_CODES. rd1 c \<noteq> None" by simp
  from apply_policies_loop_total [OF pr1] obtain rd2 where
    s2: "step_apply_policies rd1 = Inr rd2" by (auto simp: step_apply_policies_def)
  from step_enforce_treaties_total obtain rd3 tm enforced where
    "step_enforce_treaties (w_treaty_manager w) (current_tick w + 1) rd2 = Inr (rd3, tm, enforced)"
    by blast
  with s1 s2 show ?thesis by blast
qed

lemma finops_loop_raises:
  "code \<in> set codes \<Longrightarrow> \<forall>r. \<exists>e. analyze code r = Inl e \<Longrightarrow>
   \<exists>e. finops_loop analyze rd codes reports = Inl e"
proof (induction codes arbitrary: reports)
  case Nil
  then show ?case by simp
next
  case (Cons c codes)
  show ?case
  proof (cases "analyze c (rd c)")
    case (Inl e)
    then show ?thesis by simp
  next
    case (Inr rep)
    have "code \<noteq> c"
    proof
      assume "code = c"
      with Cons.prems(2) obtain e where "analyze c (rd c) = Inl e" by blast
      with Inr show False by simp
    qed
    with Cons.prems(1) have "code \<in> set codes" by simp
    from Cons.IH [OF this Cons.prems(2)] Inr show ?thesis by simp
  qed
qed

lemma tick_analysis_raises:
  assumes "\<forall>c\<in>set STATE_CODES. regions_data w c \<noteq> None"
    and "code \<in> set STATE_CODES"
    and "\<forall>r. \<exists>e. env_analyze ev code r = Inl e"
  shows "\<exists>e. tick ev w = Inl e"
proof -
  from steps_before_analysis [OF assms(1)] obtain rd1 ups rd2 rd3 tm enforced where
    s: "step_produce_consume (regions_data w) = Inr (rd1, ups)"
    "step_apply_policies rd1 = Inr rd2"
    "step_enforce_treaties (w_treaty_manager w) (current_tick w + 1) rd2
       = Inr (rd3, tm, enforced)"
    by blast
  from finops_loop_raises [of code STATE_CODES "env_analyze ev" rd3 Map.empty] assms(2,3)
  obtain e where "step_finops_analysis (env_analyze ev) rd3 = Inl e"
    unfolding step_finops_analysis_def by blast
  with s show ?thesis by (simp add: tick_def Let_def and_then_simps)
qed

text \<open>
  Claim C7 against the code. The call of the financial analysis in step 4 is not wrapped
  in \<^verbatim>\<open>try/except\<close>: when the analysis of one state raises, the step raises and so does
  the tick, which returns no report. Here the ten states are present, every other
  collaborator works and the analysis of Tamil Nadu raises.
\<close>

theorem tick_aborts_on_analysis_failure:
  "tick failing_analysis_env (start_world blank_regions) = Inl (External ''analysis failed'')"
proof -
  have present: "\<forall>c\<in>set STATE_CODES. regions_data (start_world blank_regions) c \<noteq> None"
    using blank_regions_present by (simp add: start_world_def)
  from steps_before_analysis [OF present] obtain rd1 ups rd2 rd3 tm enforced where
    s: "step_produce_consume (regions_data (start_world blank_regions)) = Inr (rd1, ups)"
    "step_apply_policies rd1 = Inr rd2"
    "step_enforce_treaties (w_treaty_manager (start_world blank_regions))
       (current_tick (start_world blank_regions) + 1) rd2 = Inr (rd3, tm, enforced)"
    by blast
  have "step_finops_analysis (env_analyze failing_analysis_env) rd3
          = Inl (External ''analysis failed'')"
    by (simp add: step_finops_analysis_def failing_analysis_env_def STATE_CODES_def)
  with s show ?thesis by (simp add: tick_def Let_def and_then_simps)
qed

text \<open>
  The same holds for the store in the climate step: when a climate event triggers and
  the store's \<^verbatim>\<open>trigger_climate_event\<close> raises, the tick raises.
\<close>

lemma climate_tick_store_failure:
  "climate_tick climate_engine_init 1 heat_rnd (Some failing_store)
     = Inl (External ''store unavailable'')"
proof -
  have sel: "select_event climate_engine_init (rand_choices heat_rnd) = Some ''Heatwave_UP''"
    by (simp add: select_event_def climate_engine_init_def EVENT_WEIGHTS_def choices_def Let_def
          heat_rnd_def)
  have gate: "CLIMATE_MIN_INTERVAL \<le> 1 - last_event_tick climate_engine_init"
    "rand_random heat_rnd < CLIMATE_EVENT_PROBABILITY"
    "active_events climate_engine_init = []"
    by (simp_all add: climate_engine_init_def heat_rnd_def CLIMATE_MIN_INTERVAL_def
          CLIMATE_EVENT_PROBABILITY_def)
  have trg: "trigger_event climate_engine_init ''Heatwave_UP'' (Some failing_store)
               = Inl (External ''store unavailable'')"
    by (simp add: trigger_event_def Let_def trigger_climate_event_def failing_store_def)
  have "climate_new_events climate_engine_init 1 heat_rnd (Some failing_store)
               = Inl (External ''store unavailable'')"
    unfolding climate_new_events_def Let_def by (simp add: gate sel trg)
  then show ?thesis by (simp add: climate_tick_def)
qed

lemma tick_aborts_on_store_failure:
  "tick failing_store_env (start_world blank_regions) = Inl (External ''store unavailable'')"
proof -
  have present: "\<forall>c\<in>set STATE_CODES. regions_data (start_world blank_regions) c \<noteq> None"
    using blank_regions_present by (simp add: start_world_def)
  from steps_before_analysis [OF present] obtain rd1 ups rd2 rd3 tm enforced where
    s: "step_produce_consume (regions_data (start_world blank_regions)) = Inr (rd1, ups)"
    "step_apply_policies rd1 = Inr rd2"
    "step_enforce_treaties (w_treaty_manager (start_world blank_regions))
       (current_tick (start_world blank_regions) + 1) rd2 = Inr (rd3, tm, enforced)"
    by blast
  have "\<forall>c r. \<exists>rep. env_analyze failing_store_env c r = Inr rep"
    by (simp add: failing_store_env_def quiet_env_def)
  from finops_loop_total [OF this, of rd3 STATE_CODES Map.empty] obtain reports where
    s4: "step_finops_analysis (env_analyze failing_store_env) rd3 = Inr reports"
    unfolding step_finops_analysis_def by blast
  have env: "env_rng failing_store_env = heat_rnd" "env_firestore failing_store_env = failing_store"
    by (simp_all add: failing_store_env_def)
  have w: "w_climate_engine (start_world blank_regions) = climate_engine_init"
    "current_tick (start_world blank_regions) + 1 = 1"
    "firebase_sync (start_world blank_regions)"
    by (simp_all add: start_world_def)
  have s5: "step_climate (w_climate_engine (start_world blank_regions))
              (current_tick (start_world blank_regions) + 1) (env_rng failing_store_env)
              (Some (env_firestore failing_store_env)) rd3 = Inl (External ''store unavailable'')"
    by (simp add: step_climate_def env w climate_tick_store_failure)
  show ?thesis
    unfolding tick_def Let_def
    by (simp only: s s4 s5 w(3) if_True and_then_simps prod.case)
qed

text \<open>
  The two call sites that do catch: a governor whose \<^verbatim>\<open>negotiate_trade\<close> raises yields no
  action and an unchanged ledger, and the synchronisation step returns whatever the
  store does.
\<close>

lemma governor_negotiate_caught:
  assumes "governors code = Some gov"
    and "\<forall>rep partner sur. \<exists>e. negotiate_trade gov rep partner sur = Inl e"
  shows "governor_negotiate governors reports rd code rep = (rd, None)"
proof (cases "deficits rep")
  case Nil
  then show ?thesis by (simp add: governor_negotiate_def)
next
  case (Cons d ds)
  let ?needed = "fst (py_max_by (\<lambda>x. oget (snd x) 0) d ds)"
  show ?thesis
  proof (cases "find_best_partner reports code ?needed")
    case None
    with Cons show ?thesis by (simp add: governor_negotiate_def Let_def)
  next
    case (Some partner)
    from assms(2) obtain e where
      "negotiate_trade gov rep partner (surpluses (report_of reports partner)) = Inl e" by blast
    with Cons Some assms(1) show ?thesis by (simp add: governor_negotiate_def Let_def)
  qed
qed

lemma step_firebase_sync_caught: "step_firebase_sync fs = ()"
  by simp

section \<open>Non-negative stocks through a tick\<close>

lemma nonneg_statesI:
  "(\<And>code r. code \<in> set STATE_CODES \<Longrightarrow> rd code = Some r \<Longrightarrow> nonneg_ledger (resources r))
   \<Longrightarrow> nonneg_states rd"
  by (auto simp: nonneg_states_def nonneg_ledger_def stock_def split: option.splits)

lemma nonneg_statesD:
  "nonneg_states rd \<Longrightarrow> code \<in> set STATE_CODES \<Longrightarrow> rd code = Some r
   \<Longrightarrow> nonneg_ledger (resources r)"
  by (auto simp: nonneg_states_def nonneg_ledger_def stock_def)

lemma stock_nonneg:
  "nonneg_states rd \<Longrightarrow> code \<in> set STATE_CODES \<Longrightarrow> name \<in> set RESOURCE_NAMES
   \<Longrightarrow> 0 \<le> stock rd code name"
  by (simp add: nonneg_states_def)

lemma nonneg_ledger_empty: "nonneg_ledger Map.empty"
  by (simp add: nonneg_ledger_def dget_def)

lemma nonneg_ledger_upd:
  "nonneg_ledger l \<Longrightarrow> (name \<in> set RESOURCE_NAMES \<Longrightarrow> 0 \<le> v) \<Longrightarrow> nonneg_ledger (l(name \<mapsto> v))"
  by (auto simp: nonneg_ledger_def dget_def)

lemma nonneg_ledger_get:
  "nonneg_ledger l \<Longrightarrow> name \<in> set RESOURCE_NAMES \<Longrightarrow> 0 \<le> dget l name 0"
  by (simp add: nonneg_ledger_def)

lemma nonneg_states_upd:
  "nonneg_states rd \<Longrightarrow> (code \<in> set STATE_CODES \<Longrightarrow> nonneg_ledger (resources r))
   \<Longrightarrow> nonneg_states (rd(code \<mapsto> r))"
  by (auto simp: nonneg_states_def nonneg_ledger_def stock_def)

lemma same_resources_nonneg:
  "same_resources rd rd' \<Longrightarrow> nonneg_states rd \<Longrightarrow> nonneg_states rd'"
proof (rule nonneg_statesI)
  fix code r'
  assume same: "same_resources rd rd'" and inv: "nonneg_states rd"
    and code: "code \<in> set STATE_CODES" and r': "rd' code = Some r'"
  from same have "map_option resources (rd' code) = map_option resources (rd code)"
    by (simp add: same_resources_def)
  with r' obtain r where "rd code = Some r" "resources r = resources r'"
    by (cases "rd code") auto
  with nonneg_statesD [OF inv code] show "nonneg_ledger (resources r')" by simp
qed

subsection \<open>Step 1 establishes the invariant\<close>

lemma nonneg_new_resources: "nonneg_ledger (new_resources r)"
  by (simp add: nonneg_ledger_def dget_def new_resources_apply)

lemma step_produce_consume_nonneg:
  assumes "step_produce_consume rd = Inr (rd1, ups)"
  shows "nonneg_states rd1"
proof (rule nonneg_statesI)
  fix code r1
  assume code: "code \<in> set STATE_CODES" and r1: "rd1 code = Some r1"
  from assms have run: "produce_consume_loop STATE_CODES (rd, Map.empty) = Inr (rd1, ups)"
    by (simp add: step_produce_consume_def)
  from same_population_dom [OF produce_consume_loop_population [OF run], of code] r1
  obtain r where r: "rd code = Some r" by auto
  from produce_consume_loop_at [OF run distinct_STATE_CODES code r] r1
  have "resources r1 = new_resources r" by auto
  then show "nonneg_ledger (resources r1)" by (simp add: nonneg_new_resources)
qed

subsection \<open>Step 2\<close>

lemma py_int_nonneg: "0 \<le> x \<Longrightarrow> 0 \<le> py_int x"
  by (simp add: py_int_def)

lemma apply_policies_region_nonneg:
  assumes "nonneg_ledger (resources r)"
  shows "nonneg_ledger (apply_policies_region r)"
proof -
  let ?p = "internal_policies r"
  let ?res0 = "resources r"
  define food_bonus where
    "food_bonus = py_int (of_int (dget ?res0 ''food'' 0) * dget ?p ''food_subsidy'' 0 * (1 / 10))"
  define res_food where "res_food = ?res0(''food'' \<mapsto> dget ?res0 ''food'' 0 + food_bonus)"
  define res1 where
    "res1 = (if dget ?p ''food_subsidy'' 0 > 0
             then res_food(''energy'' \<mapsto>
                    max 0 (dget res_food ''energy'' 0 - py_int (of_int food_bonus * (5 / 10))))
             else ?res0)"
  define water_saved where
    "water_saved = py_int (of_int (dget res1 ''water'' 0) * dget ?p ''water_tax'' 0 * (5 / 100))"
  have eq: "apply_policies_region r =
          (if dget ?p ''water_tax'' 0 > 0
           then res1(''water'' \<mapsto> dget res1 ''water'' 0 + water_saved) else res1)"
    by (simp only: apply_policies_region_def Let_def res1_def res_food_def food_bonus_def
          water_saved_def)
  have food: "0 \<le> dget ?res0 ''food'' 0"
    using assms by (simp add: nonneg_ledger_def RESOURCE_NAMES_def)
  have fb: "0 \<le> food_bonus" if "0 < dget ?p ''food_subsidy'' 0"
    unfolding food_bonus_def using food that by (intro py_int_nonneg mult_nonneg_nonneg) simp_all
  have n1: "nonneg_ledger res1"
    unfolding res1_def res_food_def using assms fb food
    by (auto intro!: nonneg_ledger_upd)
  have water: "0 \<le> dget res1 ''water'' 0"
    using n1 by (simp add: nonneg_ledger_def RESOURCE_NAMES_def)
  have ws: "0 \<le> water_saved" if "0 < dget ?p ''water_tax'' 0"
    unfolding water_saved_def using water that by (intro py_int_nonneg mult_nonneg_nonneg) simp_all
  show ?thesis
    unfolding eq using n1 water ws by (auto intro!: nonneg_ledger_upd)
qed

lemma apply_policies_loop_nonneg:
  "apply_policies_loop codes rd = Inr rd' \<Longrightarrow> nonneg_states rd \<Longrightarrow> nonneg_states rd'"
proof (induction codes arbitrary: rd)
  case Nil
  then show ?case by simp
next
  case (Cons code codes)
  from Cons.prems obtain r where r: "rd code = Some r"
    and run: "apply_policies_loop codes (rd(code \<mapsto> r\<lparr>resources := apply_policies_region r\<rparr>))
              = Inr rd'"
    by (auto split: option.splits)
  have "nonneg_states (rd(code \<mapsto> r\<lparr>resources := apply_policies_region r\<rparr>))"
    using Cons.prems(2) r
    by (intro nonneg_states_upd) (auto dest: nonneg_statesD intro: apply_policies_region_nonneg)
  from Cons.IH [OF run this] show ?case .
qed

subsection \<open>Step 3\<close>

lemma update_region_resources_local_nonneg:
  assumes "nonneg_states rd"
    and "code \<in> set STATE_CODES \<Longrightarrow> name \<in> set RESOURCE_NAMES \<Longrightarrow> 0 \<le> v"
  shows "nonneg_states (update_region_resources_local code name v rd)"
proof (cases "rd code")
  case None
  with assms show ?thesis by (simp add: update_region_resources_local_def)
next
  case (Some r)
  have "nonneg_states (rd(code \<mapsto> r\<lparr>resources := (resources r)(name \<mapsto> v)\<rparr>))"
    using assms Some
    by (intro nonneg_states_upd) (auto dest: nonneg_statesD intro!: nonneg_ledger_upd)
  with Some show ?thesis by (simp add: update_region_resources_local_def)
qed

lemma deliver_nonneg:
  assumes d: "deliver (Some update_region_resources_local) t giver receiver leg (rd, blog, result)
             = (rd', blog', result')"
    and inv: "nonneg_states rd" and amount: "0 \<le> snd leg"
  shows "nonneg_states rd'"
proof -
  obtain resource amount where leg: "leg = (resource, amount)" by (cases leg)
  show ?thesis
  proof (cases "stock rd giver resource \<ge> amount")
    case True
    let ?rd1 = "update_region_resources_local giver resource (stock rd giver resource - amount) rd"
    from d leg True have
      rd': "rd' = update_region_resources_local receiver resource
               (stock ?rd1 receiver resource + amount) ?rd1"
      by (simp add: deliver_def Let_def)
    have one: "nonneg_states ?rd1"
      using True by (intro update_region_resources_local_nonneg [OF inv]) simp
    have "0 \<le> stock ?rd1 receiver resource + amount"
      if "receiver \<in> set STATE_CODES" "resource \<in> set RESOURCE_NAMES"
      using stock_nonneg [OF one that] amount leg by simp
    then show ?thesis
      unfolding rd' by (rule update_region_resources_local_nonneg [OF one])
  next
    case False
    with d leg have "rd' = rd" by (simp add: deliver_def Let_def)
    with inv show ?thesis by simp
  qed
qed

lemma fold_deliver_nonneg:
  "fold (deliver (Some update_region_resources_local) t giver receiver) legs (rd, blog, result)
     = (rd', blog', result') \<Longrightarrow> nonneg_states rd \<Longrightarrow> amounts_nonneg legs \<Longrightarrow> nonneg_states rd'"
proof (induction legs arbitrary: rd blog result)
  case Nil
  then show ?case by simp
next
  case (Cons leg legs)
  obtain rd1 blog1 result1 where
    d: "deliver (Some update_region_resources_local) t giver receiver leg (rd, blog, result)
          = (rd1, blog1, result1)"
    by (metis prod_cases3)
  with Cons.prems have
    rest: "fold (deliver (Some update_region_resources_local) t giver receiver) legs
             (rd1, blog1, result1) = (rd', blog', result')" by simp
  from Cons.prems(3) have "0 \<le> snd leg" "amounts_nonneg legs"
    by (simp_all add: amounts_nonneg_def)
  from Cons.IH [OF rest deliver_nonneg [OF d Cons.prems(2) this(1)] this(2)] show ?case .
qed

lemma enforce_single_nonneg:
  assumes "enforce_single tr rd (Some update_region_resources_local) t = (rd', tr', result)"
    and "nonneg_states rd"
    and "amounts_nonneg (per_tick_offer tr)" and "amounts_nonneg (per_tick_request tr)"
  shows "nonneg_states rd'"
proof -
  let ?r0 = "\<lparr>res_treaty_id = treaty_id tr, res_from = from_region tr,
              res_to = to_region tr, transfers = [], breaches = []\<rparr>"
  obtain rd1 blog1 result1 where
    f1: "fold (deliver (Some update_region_resources_local) t (from_region tr) (to_region tr))
           (per_tick_offer tr) (rd, treaty_breaches tr, ?r0) = (rd1, blog1, result1)"
    by (metis prod_cases3)
  obtain rd2 blog2 result2 where
    f2: "fold (deliver (Some update_region_resources_local) t (to_region tr) (from_region tr))
           (per_tick_request tr) (rd1, blog1, result1) = (rd2, blog2, result2)"
    by (metis prod_cases3)
  from assms(1) f1 f2 have "rd' = rd2" by (simp add: enforce_single_def Let_def)
  with fold_deliver_nonneg [OF f2 fold_deliver_nonneg [OF f1 assms(2,3)] assms(4)]
  show ?thesis by simp
qed

lemma enforce_loop_nonneg:
  "enforce_loop (Some update_region_resources_local) t trs rd = (rd', active, expired, results)
   \<Longrightarrow> nonneg_states rd
   \<Longrightarrow> \<forall>tr\<in>set trs. amounts_nonneg (per_tick_offer tr) \<and> amounts_nonneg (per_tick_request tr)
   \<Longrightarrow> nonneg_states rd'"
proof (induction trs arbitrary: rd rd' active expired results)
  case Nil
  then show ?case by simp
next
  case (Cons tr trs)
  from Cons.prems(3) have tr: "amounts_nonneg (per_tick_offer tr)" "amounts_nonneg (per_tick_request tr)"
    and trs: "\<forall>tr\<in>set trs. amounts_nonneg (per_tick_offer tr) \<and> amounts_nonneg (per_tick_request tr)"
    by simp_all
  show ?case
  proof (cases "is_active tr")
    case False
    obtain rd1 a1 e1 r1 where
      rest: "enforce_loop (Some update_region_resources_local) t trs rd = (rd1, a1, e1, r1)"
      by (metis prod_cases4)
    with Cons.prems False have "rd' = rd1" by simp
    with Cons.IH [OF rest Cons.prems(2) trs] show ?thesis by simp
  next
    case True
    obtain rd1 t1 result where
      one: "enforce_single tr rd (Some update_region_resources_local) t = (rd1, t1, result)"
      by (metis prod_cases3)
    obtain rd2 a2 e2 r2 where
      rest: "enforce_loop (Some update_region_resources_local) t trs rd1 = (rd2, a2, e2, r2)"
      by (metis prod_cases4)
    from Cons.prems(1) True one rest have "rd' = rd2"
      by (simp add: Let_def split: if_splits)
    with Cons.IH [OF rest enforce_single_nonneg [OF one Cons.prems(2) tr] trs]
    show ?thesis by simp
  qed
qed

lemma apply_trust_adjustments_resources:
  "same_resources rd (apply_trust_adjustments adj rd)"
  by (auto simp: same_resources_def apply_trust_adjustments_def option.map_comp o_def
           split: option.splits)

lemma step_enforce_treaties_nonneg:
  assumes "step_enforce_treaties tm t rd = Inr (rd', tm', results)"
    and "nonneg_states rd" and "treaties_nonneg tm"
  shows "nonneg_states rd'"
proof (cases "active_treaties tm = []")
  case True
  with assms show ?thesis by (simp add: step_enforce_treaties_def)
next
  case False
  obtain rd1 a1 e1 r1 where
    loop: "enforce_loop (Some update_region_resources_local) t (active_treaties tm) rd
             = (rd1, a1, e1, r1)"
    by (metis prod_cases4)
  with assms(1) False obtain adj where rd': "rd' = apply_trust_adjustments adj rd1"
    by (auto simp: step_enforce_treaties_def enforce_treaties_def split: sum.splits)
  from assms(3) have
    "\<forall>tr\<in>set (active_treaties tm).
        amounts_nonneg (per_tick_offer tr) \<and> amounts_nonneg (per_tick_request tr)"
    by (simp add: treaties_nonneg_def)
  from enforce_loop_nonneg [OF loop assms(2) this]
  show ?thesis
    unfolding rd' by (rule same_resources_nonneg [OF apply_trust_adjustments_resources])
qed

subsection \<open>Step 5\<close>

lemma trigger_climate_event_after:
  "trigger_climate_event fs e = Inr (Some imp) \<Longrightarrow> \<forall>item\<in>set (impacts imp). 0 \<le> after (snd item)"
  by (auto simp: trigger_climate_event_def Let_def split: option.splits)

lemma trigger_event_impact:
  assumes "trigger_event ce e fs = Inr (ce', Some info)" and "trg_impact info = Some imp"
  shows "\<forall>item\<in>set (impacts imp). 0 \<le> after (snd item)"
proof (cases fs)
  case None
  with assms show ?thesis by (auto simp: trigger_event_def Let_def)
next
  case (Some f)
  with assms have "trigger_climate_event f e = Inr (Some imp)"
    by (auto simp: trigger_event_def Let_def split: sum.splits)
  then show ?thesis by (rule trigger_climate_event_after)
qed

lemma climate_new_events_impact:
  assumes "climate_new_events ce t rnd fs = Inr (ce1, events)"
    and "TRIGGERED info \<in> set events" and "trg_impact info = Some imp"
  shows "\<forall>item\<in>set (impacts imp). 0 \<le> after (snd item)"
proof -
  from assms(1,2) obtain e ce' where "trigger_event ce e fs = Inr (ce', Some info)"
    by (auto simp: climate_new_events_def Let_def
             split: if_splits option.splits sum.splits prod.splits)
  from trigger_event_impact [OF this assms(3)] show ?thesis .
qed

lemma climate_tick_impact:
  assumes "climate_tick ce t rnd fs = Inr (ce', events)"
    and "TRIGGERED info \<in> set events" and "trg_impact info = Some imp"
  shows "\<forall>item\<in>set (impacts imp). 0 \<le> after (snd item)"
proof -
  from climate_tick_split [OF assms(1)] obtain ce1 events1 where
    new: "climate_new_events ce t rnd fs = Inr (ce1, events1)"
    and ev: "events = events1 @ map EXPIRED
              (map fst (filter (\<lambda>(event_id, ticks_left). ticks_left \<le> 0)
                 (map (\<lambda>(event_id, ticks_left). (event_id, ticks_left - 1)) (active_events ce1))))"
    by blast
  from ev assms(2) have "TRIGGERED info \<in> set events1" by auto
  from climate_new_events_impact [OF new this assms(3)] show ?thesis .
qed

lemma fold_after_nonneg:
  "nonneg_ledger l \<Longrightarrow> \<forall>item\<in>set items. 0 \<le> after (snd item) \<Longrightarrow>
   nonneg_ledger (fold (\<lambda>(resource, details) res. res(resource \<mapsto> after details)) items l)"
proof (induction items arbitrary: l)
  case Nil
  then show ?case by simp
next
  case (Cons item items)
  obtain resource details where item: "item = (resource, details)" by (cases item)
  with Cons.prems have "nonneg_ledger (l(resource \<mapsto> after details))"
    by (intro nonneg_ledger_upd) simp_all
  from Cons.IH [OF this] Cons.prems(2) item show ?case by simp
qed

lemma apply_climate_event_nonneg:
  assumes inv: "nonneg_states rd"
    and imp: "\<And>info imp. event = TRIGGERED info \<Longrightarrow> trg_impact info = Some imp
               \<Longrightarrow> \<forall>item\<in>set (impacts imp). 0 \<le> after (snd item)"
  shows "nonneg_states (apply_climate_event event rd)"
proof (cases event)
  case (EXPIRED e)
  with inv show ?thesis by (simp add: apply_climate_event_def)
next
  case (TRIGGERED info)
  show ?thesis
  proof (cases "rd (trg_target_region info)")
    case None
    with TRIGGERED inv show ?thesis by (simp add: apply_climate_event_def)
  next
    case (Some r)
    show ?thesis
    proof (cases "trg_impact info")
      case None
      with TRIGGERED Some inv show ?thesis by (simp add: apply_climate_event_def)
    next
      case (Some impact)
      let ?l = "fold (\<lambda>(resource, details) res. res(resource \<mapsto> after details))
                  (impacts impact) (resources r)"
      have "nonneg_ledger ?l" if "trg_target_region info \<in> set STATE_CODES"
        using nonneg_statesD [OF inv that \<open>rd (trg_target_region info) = Some r\<close>]
          imp [OF TRIGGERED Some]
        by (rule fold_after_nonneg)
      then have "nonneg_states (rd(trg_target_region info \<mapsto> r\<lparr>resources := ?l\<rparr>))"
        by (intro nonneg_states_upd [OF inv]) simp
      with TRIGGERED Some \<open>rd (trg_target_region info) = Some r\<close> show ?thesis
        by (simp add: apply_climate_event_def)
    qed
  qed
qed

lemma fold_apply_climate_event_nonneg:
  "nonneg_states rd \<Longrightarrow>
   (\<And>info imp. TRIGGERED info \<in> set events \<Longrightarrow> trg_impact info = Some imp
      \<Longrightarrow> \<forall>item\<in>set (impacts imp). 0 \<le> after (snd item)) \<Longrightarrow>
   nonneg_states (fold apply_climate_event events rd)"
proof (induction events arbitrary: rd)
  case Nil
  then show ?case by simp
next
  case (Cons event events)
  have one: "nonneg_states (apply_climate_event event rd)"
  proof (rule apply_climate_event_nonneg [OF Cons.prems(1)])
    fix info imp
    assume "event = TRIGGERED info" "trg_impact info = Some imp"
    with Cons.prems(2) [of info imp] show "\<forall>item\<in>set (impacts imp). 0 \<le> after (snd item)"
      by simp
  qed
  have "nonneg_states (fold apply_climate_event events (apply_climate_event event rd))"
  proof (rule Cons.IH [OF one])
    fix info imp
    assume "TRIGGERED info \<in> set events" "trg_impact info = Some imp"
    with Cons.prems(2) [of info imp] show "\<forall>item\<in>set (impacts imp). 0 \<le> after (snd item)"
      by simp
  qed
  then show ?case by simp
qed

lemma step_climate_nonneg:
  assumes "step_climate ce t rnd fs rd = Inr (rd', ce', events)" and "nonneg_states rd"
  shows "nonneg_states rd'"
proof -
  from assms(1) have tick: "climate_tick ce t rnd fs = Inr (ce', events)"
    and rd': "rd' = fold apply_climate_event events rd"
    by (auto simp: step_climate_def split: sum.splits)
  show ?thesis
    unfolding rd' using climate_tick_impact [OF tick]
    by (intro fold_apply_climate_event_nonneg [OF assms(2)])
qed

subsection \<open>Direct trades\<close>

lemma transfer_item_nonneg:
  assumes "transfer_item alias item (src, dst) = (src', dst')"
    and src: "nonneg_ledger src" and dst: "nonneg_ledger dst" and amount: "0 \<le> snd item"
  shows "nonneg_ledger src' \<and> nonneg_ledger dst'"
proof -
  obtain res amount0 where item: "item = (res, amount0)" by (cases item)
  define amount where "amount = min amount0 (dget src res 0)"
  define src1 where "src1 = src(res \<mapsto> max 0 (dget src res 0 - amount))"
  define dst0 where "dst0 = (if alias then src1 else dst)"
  define dst1 where "dst1 = dst0(res \<mapsto> dget dst0 res 0 + amount)"
  have "transfer_item alias (res, amount0) (src, dst) = (if alias then dst1 else src1, dst1)"
    unfolding transfer_item_def Let_def amount_def src1_def dst0_def dst1_def by simp
  with assms(1) item have out: "src' = (if alias then dst1 else src1)" "dst' = dst1"
    by simp_all
  have a: "0 \<le> amount" if "res \<in> set RESOURCE_NAMES"
    using nonneg_ledger_get [OF src that] amount item by (simp add: amount_def)
  have s1: "nonneg_ledger src1"
    unfolding src1_def by (intro nonneg_ledger_upd [OF src]) simp
  then have d0: "nonneg_ledger dst0" using dst by (simp add: dst0_def)
  have "0 \<le> dget dst0 res 0 + amount" if "res \<in> set RESOURCE_NAMES"
    using nonneg_ledger_get [OF d0 that] a [OF that] by simp
  then have "nonneg_ledger dst1"
    unfolding dst1_def by (rule nonneg_ledger_upd [OF d0])
  with s1 out show ?thesis by simp
qed

lemma fold_transfer_item_nonneg:
  "fold (transfer_item alias) items (src, dst) = (src', dst') \<Longrightarrow>
   nonneg_ledger src \<Longrightarrow> nonneg_ledger dst \<Longrightarrow> amounts_nonneg items \<Longrightarrow>
   nonneg_ledger src' \<and> nonneg_ledger dst'"
proof (induction items arbitrary: src dst)
  case Nil
  then show ?case by simp
next
  case (Cons item items)
  obtain src1 dst1 where one: "transfer_item alias item (src, dst) = (src1, dst1)"
    by (metis surj_pair)
  with Cons.prems(1) have rest: "fold (transfer_item alias) items (src1, dst1) = (src', dst')"
    by simp
  from Cons.prems(4) have "0 \<le> snd item" "amounts_nonneg items"
    by (simp_all add: amounts_nonneg_def)
  from transfer_item_nonneg [OF one Cons.prems(2,3) this(1)]
    Cons.IH [OF rest _ _ this(2)] show ?case by blast
qed

lemma put_resources_nonneg:
  assumes "nonneg_states rd" and "code \<in> set STATE_CODES \<Longrightarrow> nonneg_ledger l"
  shows "nonneg_states (put_resources code l rd)"
proof (cases "rd code")
  case None
  with assms show ?thesis by (simp add: put_resources_def)
next
  case (Some r)
  have "nonneg_states (rd(code \<mapsto> r\<lparr>resources := l\<rparr>))"
    using assms(2) by (intro nonneg_states_upd [OF assms(1)]) simp
  with Some show ?thesis by (simp add: put_resources_def)
qed

lemma region_ledger_nonneg:
  "nonneg_states rd \<Longrightarrow> code \<in> set STATE_CODES \<Longrightarrow>
   nonneg_ledger (case rd code of None \<Rightarrow> Map.empty | Some r \<Rightarrow> resources r)"
  by (cases "rd code") (auto simp: nonneg_ledger_empty dest: nonneg_statesD)

lemma execute_direct_trade_nonneg:
  assumes inv: "nonneg_states rd"
    and codes: "from_code \<in> set STATE_CODES" "to_code \<in> set STATE_CODES"
    and amounts: "amounts_nonneg offer" "amounts_nonneg request"
  shows "nonneg_states (execute_direct_trade rd from_code to_code offer request)"
proof -
  let ?same = "from_code = to_code \<and> rd from_code \<noteq> None"
  let ?from = "case rd from_code of None \<Rightarrow> Map.empty | Some r \<Rightarrow> resources r"
  let ?to = "case rd to_code of None \<Rightarrow> Map.empty | Some r \<Rightarrow> resources r"
  obtain from1 to1 where f1: "fold (transfer_item ?same) offer (?from, ?to) = (from1, to1)"
    by (metis surj_pair)
  obtain to2 from2 where f2: "fold (transfer_item ?same) request (to1, from1) = (to2, from2)"
    by (metis surj_pair)
  from fold_transfer_item_nonneg [OF f1 region_ledger_nonneg [OF inv codes(1)]
         region_ledger_nonneg [OF inv codes(2)] amounts(1)]
  have one: "nonneg_ledger from1" "nonneg_ledger to1" by simp_all
  from fold_transfer_item_nonneg [OF f2 one(2,1) amounts(2)]
  have two: "nonneg_ledger to2" "nonneg_ledger from2" by simp_all
  have "nonneg_states (put_resources to_code to2 (put_resources from_code from2 rd))"
    using two by (intro put_resources_nonneg inv) simp_all
  with f1 f2 show ?thesis by (simp add: execute_direct_trade_def Let_def)
qed

subsection \<open>Step 6\<close>

lemma find_best_partner_fold:
  "fst (fold (\<lambda>other_code (best_partner, best_surplus).
                  if other_code = code then (best_partner, best_surplus)
                  else
                    (case map_of (surpluses (report_of reports other_code)) needed_resource of
                       None \<Rightarrow> (best_partner, best_surplus)
                     | Some entry \<Rightarrow>
                         let available = oget entry 0 in
                         if available > best_surplus then (Some other_code, available)
                         else (best_partner, best_surplus)))
               codes (b, bs)) = Some p \<Longrightarrow> b = Some p \<or> p \<in> set codes"
proof (induction codes arbitrary: b bs)
  case Nil
  then show ?case by simp
next
  case (Cons other codes)
  from Cons.prems show ?case
    by (auto simp: Let_def dest!: Cons.IH split: if_splits option.splits)
qed

lemma find_best_partner_state:
  "find_best_partner reports code needed_resource = Some p \<Longrightarrow> p \<in> set STATE_CODES"
  unfolding find_best_partner_def by (drule find_best_partner_fold) simp

lemma governor_negotiate_nonneg:
  assumes n: "governor_negotiate governors reports rd code rep = (rd', act)"
    and inv: "nonneg_states rd" and code: "code \<in> set STATE_CODES"
    and fair: "proposals_nonneg governors"
  shows "nonneg_states rd'"
proof -
  from n have "rd' = rd \<or> (\<exists>needed partner gov sur p.
      find_best_partner reports code needed = Some partner
    \<and> governors code = Some gov \<and> negotiate_trade gov rep partner sur = Inr p
    \<and> rd' = execute_direct_trade rd code partner (oget (offering p) []) (oget (requesting p) []))"
    by (auto simp: governor_negotiate_def Let_def
             split: list.splits option.splits sum.splits if_splits)
  then show ?thesis
  proof
    assume "rd' = rd"
    with inv show ?thesis by simp
  next
    assume "\<exists>needed partner gov sur p.
      find_best_partner reports code needed = Some partner
    \<and> governors code = Some gov \<and> negotiate_trade gov rep partner sur = Inr p
    \<and> rd' = execute_direct_trade rd code partner (oget (offering p) []) (oget (requesting p) [])"
    then obtain needed partner gov sur p where
      partner: "find_best_partner reports code needed = Some partner"
      and gov: "governors code = Some gov" and p: "negotiate_trade gov rep partner sur = Inr p"
      and rd': "rd' = execute_direct_trade rd code partner
                        (oget (offering p) []) (oget (requesting p) [])"
      by blast
    from fair gov p have
      "amounts_nonneg (oget (offering p) [])" "amounts_nonneg (oget (requesting p) [])"
      unfolding proposals_nonneg_def by blast+
    from execute_direct_trade_nonneg [OF inv code find_best_partner_state [OF partner] this]
    show ?thesis by (simp add: rd')
  qed
qed

lemma governor_decisions_loop_nonneg:
  "governor_decisions_loop governors reports invoke_all affected codes (rd, actions) = (rd', actions')
   \<Longrightarrow> nonneg_states rd \<Longrightarrow> set codes \<subseteq> set STATE_CODES \<Longrightarrow> proposals_nonneg governors
   \<Longrightarrow> nonneg_states rd'"
proof (induction codes arbitrary: rd actions)
  case Nil
  then show ?case by simp
next
  case (Cons code codes)
  let ?rep = "report_of reports code"
  from Cons.prems(3) have code: "code \<in> set STATE_CODES" and codes: "set codes \<subseteq> set STATE_CODES"
    by simp_all
  show ?case
  proof (cases "invoke_all \<or> oget (needs_governor ?rep) False \<or> code \<in> affected")
    case False
    with Cons.prems(1) have
      "governor_decisions_loop governors reports invoke_all affected codes (rd, actions)
         = (rd', actions')" by (simp add: Let_def)
    from Cons.IH [OF this Cons.prems(2) codes Cons.prems(4)] show ?thesis .
  next
    case True
    obtain rd1 act where n: "governor_negotiate governors reports rd code ?rep = (rd1, act)"
      by (cases "governor_negotiate governors reports rd code ?rep")
    with Cons.prems(1) True obtain actions1 where
      "governor_decisions_loop governors reports invoke_all affected codes (rd1, actions1)
         = (rd', actions')"
      by (cases act) (auto simp: Let_def)
    from Cons.IH [OF this governor_negotiate_nonneg [OF n Cons.prems(2) code Cons.prems(4)]
           codes Cons.prems(4)]
    show ?thesis .
  qed
qed

subsection \<open>Step 7\<close>

lemma match_partner_nonneg:
  "match_partner reports code offer request codes (rd, trades) = (rd', trades')
   \<Longrightarrow> nonneg_states rd \<Longrightarrow> code \<in> set STATE_CODES \<Longrightarrow> set codes \<subseteq> set STATE_CODES
   \<Longrightarrow> 0 \<le> snd offer \<Longrightarrow> 0 \<le> snd request \<Longrightarrow> nonneg_states rd'"
proof (induction codes)
  case Nil
  then show ?case by simp
next
  case (Cons other codes)
  have trade: "nonneg_states
      (execute_direct_trade rd code other [offer] [(fst request, min (snd request) available)])"
    if "snd request \<le> available" for available
    using Cons.prems(4,5,6) that
    by (intro execute_direct_trade_nonneg [OF Cons.prems(2,3)])
       (simp_all add: amounts_nonneg_def)
  from Cons.prems Cons.IH trade show ?case
    by (auto simp: Let_def split: if_splits option.splits)
qed

lemma match_recommendations_nonneg:
  "match_recommendations reports code recs (rd, trades) = (rd', trades')
   \<Longrightarrow> nonneg_states rd \<Longrightarrow> code \<in> set STATE_CODES
   \<Longrightarrow> \<forall>rec\<in>set recs. 0 \<le> oget (request_amount rec) 0
   \<Longrightarrow> nonneg_states rd'"
proof (induction recs arbitrary: rd trades)
  case Nil
  then show ?case by simp
next
  case (Cons rec recs)
  from Cons.prems(4) have rec: "0 \<le> oget (request_amount rec) 0"
    and recs: "\<forall>rec\<in>set recs. 0 \<le> oget (request_amount rec) 0" by simp_all
  show ?case
  proof (cases "action rec \<noteq> Some ''TRADE'' \<or> oget (offer_resource rec) [] = []
                \<or> oget (request_resource rec) [] = [] \<or> oget (offer_amount rec) 0 \<le> 0")
    case True
    with Cons.prems(1) have
      "match_recommendations reports code recs (rd, trades) = (rd', trades')"
      by (auto simp: Let_def split: if_splits)
    from Cons.IH [OF this Cons.prems(2,3) recs] show ?thesis .
  next
    case False
    obtain rd1 trades1 where
      m: "match_partner reports code (oget (offer_resource rec) [], oget (offer_amount rec) 0)
            (oget (request_resource rec) [], oget (request_amount rec) 0) STATE_CODES (rd, trades)
          = (rd1, trades1)"
      by (metis surj_pair)
    with Cons.prems(1) False have
      rest: "match_recommendations reports code recs (rd1, trades1) = (rd', trades')"
      by (simp add: Let_def split: if_splits)
    have "nonneg_states rd1"
      using False rec by (intro match_partner_nonneg [OF m Cons.prems(2,3)]) simp_all
    from Cons.IH [OF rest this Cons.prems(3) recs] show ?thesis .
  qed
qed

lemma trade_matching_loop_nonneg:
  "trade_matching_loop reports codes (rd, trades) = (rd', trades')
   \<Longrightarrow> nonneg_states rd \<Longrightarrow> set codes \<subseteq> set STATE_CODES
   \<Longrightarrow> (\<And>c rec. rec \<in> set (trade_recommendations (report_of reports c))
          \<Longrightarrow> 0 \<le> oget (request_amount rec) 0)
   \<Longrightarrow> nonneg_states rd'"
proof (induction codes arbitrary: rd trades)
  case Nil
  then show ?case by simp
next
  case (Cons code codes)
  obtain rd1 trades1 where
    m: "match_recommendations reports code (trade_recommendations (report_of reports code))
          (rd, trades) = (rd1, trades1)"
    by (metis surj_pair)
  with Cons.prems(1) have rest: "trade_matching_loop reports codes (rd1, trades1) = (rd', trades')"
    by simp
  have "nonneg_states rd1"
    using Cons.prems(3,4) by (intro match_recommendations_nonneg [OF m Cons.prems(2)]) simp_all
  from Cons.IH [OF rest this] Cons.prems(3,4) show ?case by simp
qed

lemma finops_loop_reports:
  "finops_loop analyze rd codes reports = Inr reports' \<Longrightarrow> reports' c = Some rep
   \<Longrightarrow> reports c = Some rep \<or> (\<exists>code r. analyze code r = Inr rep)"
proof (induction codes arbitrary: reports)
  case Nil
  then show ?case by simp
next
  case (Cons code codes)
  from Cons.prems(1) obtain rep0 where rep0: "analyze code (rd code) = Inr rep0"
    and run: "finops_loop analyze rd codes (reports(code \<mapsto> rep0)) = Inr reports'"
    by (auto split: sum.splits)
  from Cons.IH [OF run Cons.prems(2)] rep0 show ?case
    by (auto split: if_splits)
qed

lemma step_finops_analysis_recommendations:
  assumes "step_finops_analysis analyze rd = Inr reports"
    and "recommendations_nonneg analyze"
    and "rec \<in> set (trade_recommendations (report_of reports c))"
  shows "0 \<le> oget (request_amount rec) 0"
proof (cases "reports c")
  case None
  with assms(3) show ?thesis by (simp add: report_of_def dget_def empty_report_def)
next
  case (Some rep)
  from assms(1) have "finops_loop analyze rd STATE_CODES Map.empty = Inr reports"
    by (simp add: step_finops_analysis_def)
  from finops_loop_reports [OF this Some] obtain code r where "analyze code r = Inr rep"
    by auto
  with assms(2,3) Some show ?thesis
    by (auto simp: recommendations_nonneg_def report_of_def dget_def)
qed


subsection \<open>The whole tick\<close>

text \<open>
  With no negative amount in the obligations of the active treaties, in the proposals of
  the governors and in the requests of the trade recommendations, a tick that returns
  leaves every stock of the four resources of the ten states at zero or above after each
  of its steps, whatever the ledger was before.
\<close>

lemma tick_steps_nonneg:
  assumes "tick ev w = Inr (w', events)"
    and "treaties_nonneg (w_treaty_manager w)"
    and "proposals_nonneg (env_governors ev)"
    and "recommendations_nonneg (env_analyze ev)"
  shows "\<exists>rd1 ups rd2 rd3 tm enforced reports rd5 ce cevents rd6 actions rd7 trades rd8 moved rw.
      step_produce_consume (regions_data w) = Inr (rd1, ups) \<and> nonneg_states rd1
    \<and> step_apply_policies rd1 = Inr rd2 \<and> nonneg_states rd2
    \<and> step_enforce_treaties (w_treaty_manager w) (current_tick w + 1) rd2
          = Inr (rd3, tm, enforced) \<and> nonneg_states rd3
    \<and> step_finops_analysis (env_analyze ev) rd3 = Inr reports
    \<and> step_climate (w_climate_engine w) (current_tick w + 1) (env_rng ev)
          (if firebase_sync w then Some (env_firestore ev) else None) rd3
          = Inr (rd5, ce, cevents) \<and> nonneg_states rd5
    \<and> (if use_llm w
        then step_governor_decisions (env_governors ev) reports ce (current_tick w + 1) rd5
        else (rd5, [])) = (rd6, actions) \<and> nonneg_states rd6
    \<and> step_trade_matching reports rd6 = (rd7, trades) \<and> nonneg_states rd7
    \<and> step_migration rd7 = Inr (rd8, moved) \<and> nonneg_states rd8
    \<and> step_rewards rd8 = Inr (regions_data w', rw) \<and> nonneg_states (regions_data w')"
proof -
  from tick_Inr [OF assms(1)] obtain rd1 ups rd2 rd3 tm enforced reports rd5 ce cevents rd6
      actions rd7 trades rd8 moved parl meeting rd10 rw where
    s1: "step_produce_consume (regions_data w) = Inr (rd1, ups)"
    and s2: "step_apply_policies rd1 = Inr rd2"
    and s3: "step_enforce_treaties (w_treaty_manager w) (current_tick w + 1) rd2
               = Inr (rd3, tm, enforced)"
    and s4: "step_finops_analysis (env_analyze ev) rd3 = Inr reports"
    and s5: "step_climate (w_climate_engine w) (current_tick w + 1) (env_rng ev)
               (if firebase_sync w then Some (env_firestore ev) else None) rd3
             = Inr (rd5, ce, cevents)"
    and s6: "(if use_llm w
              then step_governor_decisions (env_governors ev) reports ce (current_tick w + 1) rd5
              else (rd5, [])) = (rd6, actions)"
    and s7: "step_trade_matching reports rd6 = (rd7, trades)"
    and s8: "step_migration rd7 = Inr (rd8, moved)"
    and s10: "step_rewards rd8 = Inr (rd10, rw)"
    and out: "regions_data w' = rd10"
    by blast
  have n1: "nonneg_states rd1" by (rule step_produce_consume_nonneg [OF s1])
  have n2: "nonneg_states rd2"
    using s2 n1 unfolding step_apply_policies_def by (rule apply_policies_loop_nonneg)
  have n3: "nonneg_states rd3" by (rule step_enforce_treaties_nonneg [OF s3 n2 assms(2)])
  have n5: "nonneg_states rd5" by (rule step_climate_nonneg [OF s5 n3])
  have n6: "nonneg_states rd6"
  proof (cases "use_llm w")
    case True
    with s6 have "governor_decisions_loop (env_governors ev) reports
        ((current_tick w + 1) mod LLM_PERIODIC_INTERVAL = 0) (get_affected_regions ce)
        STATE_CODES (rd5, []) = (rd6, actions)"
      by (simp add: step_governor_decisions_def)
    from governor_decisions_loop_nonneg [OF this n5 _ assms(3)] show ?thesis by simp
  next
    case False
    with s6 n5 show ?thesis by simp
  qed
  have n7: "nonneg_states rd7"
  proof -
    from s7 have "trade_matching_loop reports STATE_CODES (rd6, []) = (rd7, trades)"
      by (simp add: step_trade_matching_def)
    from this n6 show ?thesis
    proof (rule trade_matching_loop_nonneg)
      show "set STATE_CODES \<subseteq> set STATE_CODES" by simp
    next
      fix c rec
      assume "rec \<in> set (trade_recommendations (report_of reports c))"
      with s4 assms(4) show "0 \<le> oget (request_amount rec) 0"
        by (rule step_finops_analysis_recommendations)
    qed
  qed
  have n8: "nonneg_states rd8"
    by (rule same_resources_nonneg [OF step_migration_frame [OF s8] n7])
  have n10: "nonneg_states rd10"
    by (rule same_resources_nonneg [OF step_rewards_frame [OF s10] n8])
  from s1 s2 s3 s4 s5 s6 s7 s8 s10 n1 n2 n3 n5 n6 n7 n8 n10 show ?thesis
    unfolding out by blast
qed

lemma offer_env_reliable:
  "analysis_reliable (env_analyze (offer_env p))"
  "climate_store_reliable (env_firestore (offer_env p))"
  "assembly_reliable (env_governors (offer_env p))"
  by (simp_all add: offer_env_def offer_analysis_def quiet_env_def analysis_reliable_def
        climate_store_reliable_def quiet_store_def assembly_reliable_def trader_def)

lemma fair_offer_nonneg:
  "proposals_nonneg (env_governors (offer_env fair_offer))"
  "recommendations_nonneg (env_analyze (offer_env fair_offer))"
  "treaties_nonneg (w_treaty_manager (start_world rd))"
  by (auto simp: proposals_nonneg_def recommendations_nonneg_def treaties_nonneg_def
        offer_env_def offer_analysis_def trader_def fair_offer_def amounts_nonneg_def oget_def
        empty_report_def food_for_energy_def start_world_def split: if_splits)

text \<open>
  The collaborators of the example with the proposal of 5 water for 10 food satisfy the
  three conditions, and the tick returns on the example ledger.
\<close>

lemma tick_steps_nonneg_example:
  "\<exists>w' events. tick (offer_env fair_offer) (start_world trade_regions) = Inr (w', events)
     \<and> nonneg_states (regions_data w')"
proof -
  have present: "\<forall>c\<in>set STATE_CODES. regions_data (start_world trade_regions) c \<noteq> None"
    by (simp add: start_world_def trade_regions_def blank_regions_def)
  from tick_total [OF present offer_env_reliable(1)] offer_env_reliable(2,3)
  obtain w' events where
    t: "tick (offer_env fair_offer) (start_world trade_regions) = Inr (w', events)"
    by blast
  from tick_steps_nonneg [OF t fair_offer_nonneg(3) fair_offer_nonneg(1,2)] t
  show ?thesis by blast
qed

text \<open>
  A direct trade of one offered item between two different regions of the ledger: the
  sender keeps \<open>max 0 (stock - moved)\<close>, the receiver gets \<open>stock + moved\<close> with no clamp,
  where \<open>moved\<close> is \<open>min amount (stock of the sender)\<close>, negative when the amount is.
\<close>

lemma execute_direct_trade_single:
  assumes "rd from_code = Some rf" and "rd to_code = Some rt" and "from_code \<noteq> to_code"
  shows "stock (execute_direct_trade rd from_code to_code [(name, amount)] []) from_code name
           = max 0 (stock rd from_code name - min amount (stock rd from_code name))"
    and "stock (execute_direct_trade rd from_code to_code [(name, amount)] []) to_code name
           = stock rd to_code name + min amount (stock rd from_code name)"
  using assms
  by (simp_all add: execute_direct_trade_def transfer_item_def put_resources_def stock_def
        dget_def Let_def)

text \<open>
  The collaborators of the example with the proposal of 5 water for 10 food, on the
  example ledger: after the tick Maharashtra holds 7 water and 187 food, Punjab 95 water
  and 13 food (10 from the proposal, 3 from the recommendation).
\<close>

lemma tick_fair_offer_example:
  "stocks_after_tick (offer_env fair_offer) (start_world trade_regions)
     [(''MH'', ''water''), (''PB'', ''water''), (''MH'', ''food''), (''PB'', ''food'')]
   = Some [7, 95, 187, 13]"
  by (simp add: stocks_after_tick_def tick_def Let_def and_then_def
        offer_env_def offer_analysis_def trader_def food_for_energy_def
        quiet_env_def start_world_def trade_regions_def blank_regions_def blank_region_def
        STATE_CODES_def RESOURCE_NAMES_def
        step_produce_consume_def new_resources_def dget_def oget_def
        step_apply_policies_def apply_policies_region_def
        step_enforce_treaties_def step_finops_analysis_def
        step_climate_def climate_tick_def climate_new_events_def quiet_rnd_def quiet_store_def
        climate_engine_init_def CLIMATE_EVENT_PROBABILITY_def CLIMATE_MIN_INTERVAL_def
        step_governor_decisions_def LLM_PERIODIC_INTERVAL_def get_affected_regions_def
        report_of_def empty_report_def governor_negotiate_def py_max_by_def find_best_partner_def
        fair_offer_def execute_direct_trade_def transfer_item_def put_resources_def
        step_trade_matching_def step_migration_def migrate_from_def best_destination_def
        WELFARE_MIGRATION_THRESHOLD_def step_assembly_def FEDERAL_ASSEMBLY_INTERVAL_def
        step_rewards_def reward_region_def step_firebase_sync_def stock_def)

text \<open>
  Claim C1 does not hold of the code. With the same collaborators and the same ledger,
  the governor of Punjab proposes \<open>-5\<close> water for 10 food to Maharashtra. The trade moves
  \<open>min (-5) 100 = -5\<close>: the sender is clamped, \<open>max 0 (100 + 5) = 105\<close>, and the receiver, which
  is not, stores \<open>2 - 5 = -3\<close>. Nothing after the trade touches that stock: the tick returns
  with Maharashtra at \<open>-3\<close> water.
\<close>

theorem tick_negative_offer_stores_negative:
  "stocks_after_tick (offer_env negative_offer) (start_world trade_regions)
     [(''MH'', ''water''), (''PB'', ''water''), (''MH'', ''food''), (''PB'', ''food'')]
   = Some [- 3, 105, 187, 13]"
  by (simp add: stocks_after_tick_def tick_def Let_def and_then_def
        offer_env_def offer_analysis_def trader_def food_for_energy_def
        quiet_env_def start_world_def trade_regions_def blank_regions_def blank_region_def
        STATE_CODES_def RESOURCE_NAMES_def
        step_produce_consume_def new_resources_def dget_def oget_def
        step_apply_policies_def apply_policies_region_def
        step_enforce_treaties_def step_finops_analysis_def
        step_climate_def climate_tick_def climate_new_events_def quiet_rnd_def quiet_store_def
        climate_engine_init_def CLIMATE_EVENT_PROBABILITY_def CLIMATE_MIN_INTERVAL_def
        step_governor_decisions_def LLM_PERIODIC_INTERVAL_def get_affected_regions_def
        report_of_def empty_report_def governor_negotiate_def py_max_by_def find_best_partner_def
        negative_offer_def execute_direct_trade_def transfer_item_def put_resources_def
        step_trade_matching_def step_migration_def migrate_from_def best_destination_def
        WELFARE_MIGRATION_THRESHOLD_def step_assembly_def FEDERAL_ASSEMBLY_INTERVAL_def
        step_rewards_def reward_region_def step_firebase_sync_def stock_def)

end
